theory Spec2Isabelle
  imports Complex_Main "HOL-Library.Word" "HOL-Library.Monad_Syntax"
begin

section \<open>Data model (internal/models/log.go)\<close>

text \<open>
  Go strings are byte sequences; they are modelled as \<open>string\<close>, a list of 8-bit
  characters. \<open>LogLevel\<close> is declared as \<^verbatim>\<open>type LogLevel string\<close>: every string
  is a value of the type, and five of them are named.
\<close>

type_synonym LogLevel = string

definition DEBUG :: LogLevel where "DEBUG = ''DEBUG''"
definition INFO :: LogLevel where "INFO = ''INFO''"
definition WARN :: LogLevel where "WARN = ''WARN''"
definition ERROR :: LogLevel where "ERROR = ''ERROR''"
definition FATAL :: LogLevel where "FATAL = ''FATAL''"

definition levels :: "LogLevel list" where
  "levels = [DEBUG, INFO, WARN, ERROR, FATAL]"

text \<open>
  \<^verbatim>\<open>time.Time\<close> is opaque to the repository, which only creates it (\<^verbatim>\<open>time.Now\<close>),
  prints it (\<^verbatim>\<open>MarshalJSON\<close>, \<^verbatim>\<open>Format\<close>) and reads it back (\<^verbatim>\<open>UnmarshalJSON\<close>).
  An instant is modelled by what those operations observe: the calendar date and
  clock reading in the time's own zone, and the zone's offset east of UTC in seconds.
  The monotonic clock reading and the zone's name are outside the model.
\<close>

record Time =
  Year :: int
  Month :: nat
  Day :: nat
  Hour :: nat
  Minute :: nat
  Second :: nat
  Nanosecond :: nat
  ZoneOffset :: int

definition isLeap :: "int \<Rightarrow> bool" where
  "isLeap y \<longleftrightarrow> y mod 4 = 0 \<and> (y mod 100 \<noteq> 0 \<or> y mod 400 = 0)"

definition daysIn :: "nat \<Rightarrow> int \<Rightarrow> nat" where
  "daysIn m y =
     (if m = 2 then (if isLeap y then 29 else 28)
      else if m = 4 \<or> m = 6 \<or> m = 9 \<or> m = 11 then 30 else 31)"

text \<open>The values a \<^verbatim>\<open>time.Time\<close> can show: a real date and a real clock reading.\<close>

definition wellformed :: "Time \<Rightarrow> bool" where
  "wellformed t \<longleftrightarrow>
     1 \<le> Month t \<and> Month t \<le> 12 \<and> 1 \<le> Day t \<and> Day t \<le> daysIn (Month t) (Year t) \<and>
     Hour t < 24 \<and> Minute t < 60 \<and> Second t < 60 \<and> Nanosecond t < 1000000000"

text \<open>The zero value \<^verbatim>\<open>time.Time{}\<close>: January 1, year 1, 00:00:00 UTC.\<close>

definition zeroTime :: Time where
  "zeroTime = \<lparr>Year = 1, Month = 1, Day = 1, Hour = 0, Minute = 0, Second = 0,
     Nanosecond = 0, ZoneOffset = 0\<rparr>"

record LogEntry =
  Timestamp :: Time
  Application :: string
  Level :: LogLevel
  Message :: string

definition zeroEntry :: LogEntry where
  "zeroEntry = \<lparr>Timestamp = zeroTime, Application = [], Level = [], Message = []\<rparr>"

datatype error =
    MarshalerError string
  | SyntaxError
  | UnmarshalTypeError string string
  | TimeParseError
  | BrokerError string
  | Wrapped string error

section \<open>Decimal output (time.appendInt, fmt's %d)\<close>

definition digit :: "nat \<Rightarrow> char" where
  "digit n = char_of (48 + n)"

fun digitsOf :: "nat \<Rightarrow> string" where
  "digitsOf n = (if n < 10 then [digit n] else digitsOf (n div 10) @ [digit (n mod 10)])"

text \<open>\<^verbatim>\<open>appendInt(b, x, width)\<close>: a sign for a negative \<open>x\<close>, then its digits, padded
  with zeros on the left up to \<open>width\<close>.\<close>

definition appendInt :: "int \<Rightarrow> nat \<Rightarrow> string" where
  "appendInt x width =
     (let u = nat \<bar>x\<bar>; ds = digitsOf u
      in (if x < 0 then ''-'' else []) @ replicate (width - length ds) (CHR ''0'') @ ds)"

text \<open>The verb \<^verbatim>\<open>%d\<close> of the fmt package on a signed integer.\<close>

definition showInt :: "int \<Rightarrow> string" where
  "showInt x = (if x < 0 then ''-'' else []) @ digitsOf (nat \<bar>x\<bar>)"

section \<open>time.Time as text\<close>

text \<open>
  The fractional second of the layout \<^verbatim>\<open>.999999999\<close> (\<^verbatim>\<open>appendNano\<close>): nothing for
  zero, otherwise a period and nine digits with the trailing zeros removed.
\<close>

fun trimZeros :: "string \<Rightarrow> string" where
  "trimZeros [] = []"
| "trimZeros (c # cs) =
     (let r = trimZeros cs in if r = [] \<and> c = CHR ''0'' then [] else c # r)"

definition appendNano :: "nat \<Rightarrow> string" where
  "appendNano ns = (if ns = 0 then [] else ''.'' @ trimZeros (appendInt (int ns) 9))"

text \<open>
  The zone of the layout \<^verbatim>\<open>Z07:00\<close>: \<^verbatim>\<open>Z\<close> for offset zero, otherwise the sign and
  the offset in hours and minutes. Go's integer division truncates towards zero, so
  the sign is negative only from a full minute west of UTC on.
\<close>

definition appendZone :: "int \<Rightarrow> string" where
  "appendZone off =
     (if off = 0 then ''Z''
      else let zone = nat \<bar>off\<bar> div 60
           in (if off \<le> - 60 then ''-'' else ''+'') @
              appendInt (int (zone div 60)) 2 @ '':'' @ appendInt (int (zone mod 60)) 2)"

text \<open>\<^verbatim>\<open>t.Format(time.RFC3339Nano)\<close>, layout \<^verbatim>\<open>2006-01-02T15:04:05.999999999Z07:00\<close>.\<close>

definition formatRFC3339Nano :: "Time \<Rightarrow> string" where
  "formatRFC3339Nano t =
     appendInt (Year t) 4 @ ''-'' @ appendInt (int (Month t)) 2 @ ''-'' @
     appendInt (int (Day t)) 2 @ ''T'' @ appendInt (int (Hour t)) 2 @ '':'' @
     appendInt (int (Minute t)) 2 @ '':'' @ appendInt (int (Second t)) 2 @
     appendNano (Nanosecond t) @ appendZone (ZoneOffset t)"

text \<open>\<^verbatim>\<open>t.Format("15:04:05")\<close>, the clock reading in the time's zone.\<close>

definition formatClock :: "Time \<Rightarrow> string" where
  "formatClock t =
     appendInt (int (Hour t)) 2 @ '':'' @ appendInt (int (Minute t)) 2 @ '':'' @
     appendInt (int (Second t)) 2"

definition quote :: char where "quote = CHR 0x22"
definition backslash :: char where "backslash = CHR 0x5C"

text \<open>
  \<^verbatim>\<open>Time.MarshalJSON\<close>: the RFC 3339 text in double quotes. Not every time has one:
  the year must have four digits and the zone's hour two digits below 24, and
  the method returns an error otherwise.
\<close>

definition Time_MarshalJSON :: "Time \<Rightarrow> error + string" where
  "Time_MarshalJSON t =
     (if Year t < 0 \<or> 9999 < Year t then
        Inl (MarshalerError ''Time.MarshalJSON: year outside of range [0,9999]'')
      else if 24 \<le> nat \<bar>ZoneOffset t\<bar> div 60 div 60 then
        Inl (MarshalerError ''Time.MarshalJSON: timezone hour outside of range [0,23]'')
      else Inr ([quote] @ formatRFC3339Nano t @ [quote]))"

section \<open>UTF-8 (unicode/utf8)\<close>

definition RuneError :: nat where "RuneError = 0xFFFD"

definition cont :: "char \<Rightarrow> bool" where
  "cont c \<longleftrightarrow> 0x80 \<le> (of_char c :: nat) \<and> (of_char c :: nat) \<le> 0xBF"

text \<open>The range accepted for the second byte, which depends on the first
  (it excludes overlong forms, surrogates and values above U+10FFFF).\<close>

definition second_ok :: "nat \<Rightarrow> nat \<Rightarrow> bool" where
  "second_ok b0 b1 \<longleftrightarrow>
     (if b0 = 0xE0 then 0xA0 \<le> b1 \<and> b1 \<le> 0xBF
      else if b0 = 0xED then 0x80 \<le> b1 \<and> b1 \<le> 0x9F
      else if b0 = 0xF0 then 0x90 \<le> b1 \<and> b1 \<le> 0xBF
      else if b0 = 0xF4 then 0x80 \<le> b1 \<and> b1 \<le> 0x8F
      else 0x80 \<le> b1 \<and> b1 \<le> 0xBF)"

text \<open>\<^verbatim>\<open>utf8.DecodeRune\<close>: the first rune of the bytes and its width; the pair
  \<open>(RuneError, 1)\<close> for a byte that starts no valid encoding, \<open>(RuneError, 0)\<close>
  for no bytes. The masks and shifts of the library are written as arithmetic.\<close>

fun DecodeRune :: "string \<Rightarrow> nat \<times> nat" where
  "DecodeRune [] = (RuneError, 0)"
| "DecodeRune (c0 # cs) =
     (let b0 = of_char c0 :: nat in
      if b0 < 0x80 then (b0, 1)
      else if 0xC2 \<le> b0 \<and> b0 \<le> 0xDF then
        (case cs of
           c1 # _ \<Rightarrow>
             if cont c1 then ((b0 - 0xC0) * 64 + (of_char c1 - 0x80), 2) else (RuneError, 1)
         | _ \<Rightarrow> (RuneError, 1))
      else if 0xE0 \<le> b0 \<and> b0 \<le> 0xEF then
        (case cs of
           c1 # c2 # _ \<Rightarrow>
             if second_ok b0 (of_char c1) \<and> cont c2 then
               ((b0 - 0xE0) * 4096 + (of_char c1 - 0x80) * 64 + (of_char c2 - 0x80), 3)
             else (RuneError, 1)
         | _ \<Rightarrow> (RuneError, 1))
      else if 0xF0 \<le> b0 \<and> b0 \<le> 0xF4 then
        (case cs of
           c1 # c2 # c3 # _ \<Rightarrow>
             if second_ok b0 (of_char c1) \<and> cont c2 \<and> cont c3 then
               ((b0 - 0xF0) * 262144 + (of_char c1 - 0x80) * 4096 +
                (of_char c2 - 0x80) * 64 + (of_char c3 - 0x80), 4)
             else (RuneError, 1)
         | _ \<Rightarrow> (RuneError, 1))
      else (RuneError, 1))"

text \<open>\<^verbatim>\<open>utf8.EncodeRune\<close>; a surrogate or a value above U+10FFFF is written as
  U+FFFD.\<close>

definition EncodeRune :: "nat \<Rightarrow> string" where
  "EncodeRune r =
     (if r \<le> 0x7F then [char_of r]
      else if r \<le> 0x7FF then [char_of (0xC0 + r div 64), char_of (0x80 + r mod 64)]
      else if 0x10FFFF < r \<or> (0xD800 \<le> r \<and> r \<le> 0xDFFF) then
        [CHR 0xEF, CHR 0xBF, CHR 0xBD]
      else if r \<le> 0xFFFF then
        [char_of (0xE0 + r div 4096), char_of (0x80 + r div 64 mod 64),
         char_of (0x80 + r mod 64)]
      else
        [char_of (0xF0 + r div 262144), char_of (0x80 + r div 4096 mod 64),
         char_of (0x80 + r div 64 mod 64), char_of (0x80 + r mod 64)])"

text \<open>\<^verbatim>\<open>utf8.ValidString\<close>.\<close>

fun ValidString :: "string \<Rightarrow> bool" where
  "ValidString [] = True"
| "ValidString (c # cs) =
     (case DecodeRune (c # cs) of
        (r, w) \<Rightarrow> \<not> (r = RuneError \<and> w = 1) \<and> ValidString (drop (w - 1) cs))"

section \<open>Serialization (encoding/json: Marshal)\<close>

definition hex :: "nat \<Rightarrow> char" where
  "hex n = ''0123456789abcdef'' ! n"

text \<open>The ASCII characters that \<^verbatim>\<open>Marshal\<close> copies as they are (\<^verbatim>\<open>htmlSafeSet\<close>).\<close>

definition htmlSafe :: "char \<Rightarrow> bool" where
  "htmlSafe c \<longleftrightarrow>
     0x20 \<le> (of_char c :: nat) \<and> (of_char c :: nat) < 0x80 \<and>
     c \<noteq> quote \<and> c \<noteq> backslash \<and> c \<noteq> CHR ''&'' \<and> c \<noteq> CHR ''<'' \<and> c \<noteq> CHR ''>''"

definition escapeASCII :: "char \<Rightarrow> string" where
  "escapeASCII c =
     (if htmlSafe c then [c]
      else if c = backslash \<or> c = quote then [backslash, c]
      else if c = CHR 0x08 then [backslash, CHR ''b'']
      else if c = CHR 0x0C then [backslash, CHR ''f'']
      else if c = CHR 0x0A then [backslash, CHR ''n'']
      else if c = CHR 0x0D then [backslash, CHR ''r'']
      else if c = CHR 0x09 then [backslash, CHR ''t'']
      else [backslash, CHR ''u'', CHR ''0'', CHR ''0'',
            hex (of_char c div 16), hex (of_char c mod 16)])"

text \<open>
  The body of \<^verbatim>\<open>appendString\<close> with HTML escaping, as \<^verbatim>\<open>Marshal\<close> calls it: an
  ASCII character is copied or escaped; a byte that starts no valid UTF-8 encoding
  is replaced by the escape of U+FFFD; U+2028 and U+2029 are escaped; every other
  rune is copied.
\<close>

fun encodeString :: "string \<Rightarrow> string" where
  "encodeString [] = []"
| "encodeString (c # cs) =
     (if (of_char c :: nat) < 0x80 then escapeASCII c @ encodeString cs
      else case DecodeRune (c # cs) of
        (r, w) \<Rightarrow>
          if r = RuneError \<and> w = 1 then
            [backslash] @ ''ufffd'' @ encodeString cs
          else if r = 0x2028 \<or> r = 0x2029 then
            [backslash] @ ''u202'' @ [hex (r mod 16)] @ encodeString (drop (w - 1) cs)
          else c # take (w - 1) cs @ encodeString (drop (w - 1) cs))"

definition appendString :: "string \<Rightarrow> string" where
  "appendString s = [quote] @ encodeString s @ [quote]"

definition jsonKey :: "string \<Rightarrow> string" where
  "jsonKey name = [quote] @ name @ [quote] @ '':''"

text \<open>
  \<^verbatim>\<open>json.Marshal\<close> of a \<open>LogEntry\<close>: the four fields in declaration order under
  the names of their tags. Only the timestamp's \<^verbatim>\<open>MarshalJSON\<close> can fail.
\<close>

definition Marshal :: "LogEntry \<Rightarrow> error + string" where
  "Marshal l =
     (case Time_MarshalJSON (Timestamp l) of
        Inl e \<Rightarrow> Inl e
      | Inr ts \<Rightarrow>
          Inr (''{'' @ jsonKey ''timestamp'' @ ts @ '','' @
               jsonKey ''application'' @ appendString (Application l) @ '','' @
               jsonKey ''level'' @ appendString (Level l) @ '','' @
               jsonKey ''message'' @ appendString (Message l) @ ''}''))"

definition ToJson :: "LogEntry \<Rightarrow> error + string" where
  "ToJson l = Marshal l"

section \<open>JSON text (encoding/json: the scanner)\<close>

text \<open>
  \<^verbatim>\<open>Unmarshal\<close> first checks that the whole input is one JSON value, then walks
  it. The model does the same in two steps: the bytes are cut into tokens, and the
  tokens are read into a value, with the states of the library's scanner.
\<close>

datatype token =
    LBrace | RBrace | LBrack | RBrack | Colon | Comma
  | StringLit string
  | NumberLit string
  | TrueLit | FalseLit | NullLit

definition isSpace :: "char \<Rightarrow> bool" where
  "isSpace c \<longleftrightarrow> c = CHR '' '' \<or> c = CHR 0x09 \<or> c = CHR 0x0D \<or> c = CHR 0x0A"

definition isDigit :: "char \<Rightarrow> bool" where
  "isDigit c \<longleftrightarrow> 48 \<le> (of_char c :: nat) \<and> (of_char c :: nat) \<le> 57"

definition isHexDigit :: "char \<Rightarrow> bool" where
  "isHexDigit c \<longleftrightarrow>
     isDigit c \<or> (97 \<le> (of_char c :: nat) \<and> (of_char c :: nat) \<le> 102) \<or>
     (65 \<le> (of_char c :: nat) \<and> (of_char c :: nat) \<le> 70)"

text \<open>
  Inside a string literal, after the opening quote: the position of the closing
  quote. A control character, an unknown escape, or the end of the input before the
  closing quote is a syntax error.
\<close>

fun scanString :: "string \<Rightarrow> nat option" where
  "scanString [] = None"
| "scanString (c # cs) =
     (if c = quote then Some 0
      else if c = backslash then
        (case cs of
           [] \<Rightarrow> None
         | e # es \<Rightarrow>
             if e \<in> set [CHR ''b'', CHR ''f'', CHR ''n'', CHR ''r'', CHR ''t'',
                          backslash, CHR ''/'', quote] then
               map_option (\<lambda>n. n + 2) (scanString es)
             else if e = CHR ''u'' then
               (if 4 \<le> length es \<and> list_all isHexDigit (take 4 es) then
                  map_option (\<lambda>n. n + 6) (scanString (drop 4 es))
                else None)
             else None)
      else if (of_char c :: nat) < 0x20 then None
      else map_option Suc (scanString cs))"

text \<open>The length of the number literal at the start of the input:
  \<^verbatim>\<open>-? (0 | [1-9][0-9]*) (. [0-9]+)? ([eE] [+-]? [0-9]+)?\<close>.\<close>

definition spanDigits :: "string \<Rightarrow> nat" where
  "spanDigits s = length (takeWhile isDigit s)"

definition scanFrac :: "string \<Rightarrow> nat option" where
  "scanFrac s =
     (case s of
        c # cs \<Rightarrow>
          if c = CHR ''.'' then
            (if spanDigits cs = 0 then None else Some (1 + spanDigits cs))
          else Some 0
      | [] \<Rightarrow> Some 0)"

definition signLen :: "string \<Rightarrow> nat" where
  "signLen s = (case s of d # _ \<Rightarrow> if d = CHR ''+'' \<or> d = CHR ''-'' then 1 else 0 | [] \<Rightarrow> 0)"

definition scanExp :: "string \<Rightarrow> nat option" where
  "scanExp s =
     (case s of
        c # cs \<Rightarrow>
          if c = CHR ''e'' \<or> c = CHR ''E'' then
            (let sg = signLen cs
             in if spanDigits (drop sg cs) = 0 then None
                else Some (1 + sg + spanDigits (drop sg cs)))
          else Some 0
      | [] \<Rightarrow> Some 0)"

definition minusLen :: "string \<Rightarrow> nat" where
  "minusLen s = (case s of c # _ \<Rightarrow> if c = CHR ''-'' then 1 else 0 | [] \<Rightarrow> 0)"

definition scanNumber :: "string \<Rightarrow> nat option" where
  "scanNumber s =
     (let neg = minusLen s in
      case drop neg s of
        [] \<Rightarrow> None
      | c # cs \<Rightarrow>
          if \<not> isDigit c then None
          else let ip = (if c = CHR ''0'' then 1 else 1 + spanDigits cs) in
            (case scanFrac (drop (neg + ip) s) of
               None \<Rightarrow> None
             | Some f \<Rightarrow>
                 (case scanExp (drop (neg + ip + f) s) of
                    None \<Rightarrow> None
                  | Some x \<Rightarrow> Some (neg + ip + f + x))))"

definition cons_token :: "token \<Rightarrow> token list option \<Rightarrow> token list option" where
  "cons_token t r = map_option ((#) t) r"

fun lex :: "string \<Rightarrow> token list option" where
  "lex [] = Some []"
| "lex (c # cs) =
     (if isSpace c then lex cs
      else if c = CHR ''{'' then cons_token LBrace (lex cs)
      else if c = CHR ''}'' then cons_token RBrace (lex cs)
      else if c = CHR ''['' then cons_token LBrack (lex cs)
      else if c = CHR '']'' then cons_token RBrack (lex cs)
      else if c = CHR '':'' then cons_token Colon (lex cs)
      else if c = CHR '','' then cons_token Comma (lex cs)
      else if c = quote then
        (case scanString cs of
           None \<Rightarrow> None
         | Some n \<Rightarrow> cons_token (StringLit (take n cs)) (lex (drop (Suc n) cs)))
      else if c = CHR ''-'' \<or> isDigit c then
        (case scanNumber (c # cs) of
           None \<Rightarrow> None
         | Some n \<Rightarrow> cons_token (NumberLit (take n (c # cs))) (lex (drop (n - 1) cs)))
      else if take 4 (c # cs) = ''true'' then cons_token TrueLit (lex (drop 3 cs))
      else if take 5 (c # cs) = ''false'' then cons_token FalseLit (lex (drop 4 cs))
      else if take 4 (c # cs) = ''null'' then cons_token NullLit (lex (drop 3 cs))
      else None)"

datatype json =
    JNull | JBool bool | JNumber string | JString string
  | JArray "json list" | JObject "(string \<times> json) list"

text \<open>The scanner's states between tokens, and its stack of open arrays and
  objects; an open object remembers the key whose value is being read.\<close>

datatype pmode =
    BeginValue | BeginValueOrEmpty | BeginStringOrEmpty | BeginString
  | ObjectKey | EndValue | EndTop json

datatype frame = InObj "(string \<times> json) list" "string option" | InArr "json list"

fun deliver :: "json \<Rightarrow> frame list \<Rightarrow> (pmode \<times> frame list) option" where
  "deliver v [] = Some (EndTop v, [])"
| "deliver v (InArr items # st) = Some (EndValue, InArr (items @ [v]) # st)"
| "deliver v (InObj ms (Some k) # st) = Some (EndValue, InObj (ms @ [(k, v)]) None # st)"
| "deliver v (InObj ms None # st) = None"

text \<open>The scanner refuses to open an array or object when that makes more than
  \<^verbatim>\<open>maxNestingDepth\<close> of them open at once.\<close>

definition maxNestingDepth :: nat where
  "maxNestingDepth = 10000"

fun beginValue :: "token \<Rightarrow> frame list \<Rightarrow> (pmode \<times> frame list) option" where
  "beginValue LBrace st =
     (if length st < maxNestingDepth then Some (BeginStringOrEmpty, InObj [] None # st)
      else None)"
| "beginValue LBrack st =
     (if length st < maxNestingDepth then Some (BeginValueOrEmpty, InArr [] # st)
      else None)"
| "beginValue (StringLit s) st = deliver (JString s) st"
| "beginValue (NumberLit s) st = deliver (JNumber s) st"
| "beginValue TrueLit st = deliver (JBool True) st"
| "beginValue FalseLit st = deliver (JBool False) st"
| "beginValue NullLit st = deliver JNull st"
| "beginValue _ st = None"

fun pstep :: "token \<Rightarrow> pmode \<times> frame list \<Rightarrow> (pmode \<times> frame list) option" where
  "pstep t (BeginValue, st) = beginValue t st"
| "pstep t (BeginValueOrEmpty, st) =
     (case (t, st) of
        (RBrack, InArr items # st') \<Rightarrow> deliver (JArray items) st'
      | _ \<Rightarrow> beginValue t st)"
| "pstep t (BeginStringOrEmpty, st) =
     (case (t, st) of
        (RBrace, InObj ms None # st') \<Rightarrow> deliver (JObject ms) st'
      | (StringLit k, InObj ms None # st') \<Rightarrow> Some (ObjectKey, InObj ms (Some k) # st')
      | _ \<Rightarrow> None)"
| "pstep t (BeginString, st) =
     (case (t, st) of
        (StringLit k, InObj ms None # st') \<Rightarrow> Some (ObjectKey, InObj ms (Some k) # st')
      | _ \<Rightarrow> None)"
| "pstep t (ObjectKey, st) = (case t of Colon \<Rightarrow> Some (BeginValue, st) | _ \<Rightarrow> None)"
| "pstep t (EndValue, st) =
     (case (t, st) of
        (Comma, InObj ms None # st') \<Rightarrow> Some (BeginString, st)
      | (Comma, InArr items # st') \<Rightarrow> Some (BeginValue, st)
      | (RBrace, InObj ms None # st') \<Rightarrow> deliver (JObject ms) st'
      | (RBrack, InArr items # st') \<Rightarrow> deliver (JArray items) st'
      | _ \<Rightarrow> None)"
| "pstep t (EndTop v, st) = None"

fun run :: "token list \<Rightarrow> pmode \<times> frame list \<Rightarrow> (pmode \<times> frame list) option" where
  "run [] s = Some s"
| "run (t # ts) s = (case pstep t s of None \<Rightarrow> None | Some s' \<Rightarrow> run ts s')"

definition parse :: "string \<Rightarrow> json option" where
  "parse data =
     (case lex data of
        None \<Rightarrow> None
      | Some ts \<Rightarrow>
          (case run ts (BeginValue, []) of
             Some (EndTop v, st) \<Rightarrow> Some v
           | _ \<Rightarrow> None))"

section \<open>String literals read back (encoding/json: unquote)\<close>

definition hexVal :: "char \<Rightarrow> nat" where
  "hexVal c =
     (if isDigit c then of_char c - 48
      else if 97 \<le> (of_char c :: nat) then of_char c - 87
      else of_char c - 55)"

text \<open>\<^verbatim>\<open>getu4\<close>: the number written by a \<^verbatim>\<open>\uXXXX\<close> escape at the start of the
  bytes, if there is one.\<close>

definition getu4 :: "string \<Rightarrow> nat option" where
  "getu4 s =
     (case s of
        c # u # h1 # h2 # h3 # h4 # _ \<Rightarrow>
          if c = backslash \<and> u = CHR ''u'' \<and> isHexDigit h1 \<and> isHexDigit h2 \<and>
             isHexDigit h3 \<and> isHexDigit h4
          then Some (hexVal h1 * 4096 + hexVal h2 * 256 + hexVal h3 * 16 + hexVal h4)
          else None
      | _ \<Rightarrow> None)"

definition isSurrogate :: "nat \<Rightarrow> bool" where
  "isSurrogate r \<longleftrightarrow> 0xD800 \<le> r \<and> r < 0xE000"

text \<open>\<^verbatim>\<open>utf16.DecodeRune\<close>: the code point of a surrogate pair, U+FFFD for
  anything else.\<close>

definition utf16_DecodeRune :: "nat \<Rightarrow> nat option \<Rightarrow> nat" where
  "utf16_DecodeRune r1 r2 =
     (case r2 of
        Some r2' \<Rightarrow>
          if 0xD800 \<le> r1 \<and> r1 < 0xDC00 \<and> 0xDC00 \<le> r2' \<and> r2' < 0xE000
          then (r1 - 0xD800) * 1024 + (r2' - 0xDC00) + 0x10000
          else RuneError
      | None \<Rightarrow> RuneError)"

definition prepend :: "string \<Rightarrow> string option \<Rightarrow> string option" where
  "prepend xs r = map_option ((@) xs) r"

text \<open>
  \<^verbatim>\<open>unquoteBytes\<close> on the text between the quotes: escapes are replaced by what
  they stand for, and every byte sequence that is not valid UTF-8 by U+FFFD.
\<close>

fun unquote :: "string \<Rightarrow> string option" where
  "unquote [] = Some []"
| "unquote (c # cs) =
     (if c = backslash then
        (case cs of
           [] \<Rightarrow> None
         | e # es \<Rightarrow>
             if e = quote \<or> e = backslash \<or> e = CHR ''/'' \<or> e = CHR 0x27 then
               prepend [e] (unquote es)
             else if e = CHR ''b'' then prepend [CHR 0x08] (unquote es)
             else if e = CHR ''f'' then prepend [CHR 0x0C] (unquote es)
             else if e = CHR ''n'' then prepend [CHR 0x0A] (unquote es)
             else if e = CHR ''r'' then prepend [CHR 0x0D] (unquote es)
             else if e = CHR ''t'' then prepend [CHR 0x09] (unquote es)
             else if e = CHR ''u'' then
               (case getu4 (c # cs) of
                  None \<Rightarrow> None
                | Some rr \<Rightarrow>
                    if isSurrogate rr then
                      (let dec = utf16_DecodeRune rr (getu4 (drop 4 es)) in
                       if dec \<noteq> RuneError then prepend (EncodeRune dec) (unquote (drop 10 es))
                       else prepend (EncodeRune RuneError) (unquote (drop 4 es)))
                    else prepend (EncodeRune rr) (unquote (drop 4 es)))
             else None)
      else if c = quote \<or> (of_char c :: nat) < 0x20 then None
      else if (of_char c :: nat) < 0x80 then prepend [c] (unquote cs)
      else case DecodeRune (c # cs) of
        (rr, w) \<Rightarrow> prepend (EncodeRune rr) (unquote (drop (w - 1) cs)))"

section \<open>Timestamps read back (time: Time.UnmarshalJSON)\<close>

definition digitsVal :: "string \<Rightarrow> nat" where
  "digitsVal s = foldl (\<lambda>a c. a * 10 + (of_char c - 48)) 0 s"

text \<open>The helper \<^verbatim>\<open>parseUint\<close> of \<^verbatim>\<open>parseRFC3339\<close>: decimal digits only, and
  a value within the bounds.\<close>

definition parseUint :: "string \<Rightarrow> nat \<Rightarrow> nat \<Rightarrow> nat option" where
  "parseUint s lo hi =
     (if list_all isDigit s \<and> lo \<le> digitsVal s \<and> digitsVal s \<le> hi
      then Some (digitsVal s) else None)"

text \<open>\<^verbatim>\<open>parseNanoseconds\<close> on the digits after the period: at most nine count,
  scaled to nanoseconds.\<close>

definition parseNanoseconds :: "string \<Rightarrow> nat" where
  "parseNanoseconds ds = digitsVal (take 9 ds) * 10 ^ (9 - length (take 9 ds))"

text \<open>The zone after the seconds: \<^verbatim>\<open>Z\<close>, or a sign, two digits of hours, a colon
  and two digits of minutes.\<close>

definition parseZone :: "string \<Rightarrow> int option" where
  "parseZone z =
     (if z = ''Z'' then Some 0
      else if length z \<noteq> 6 then None
      else do {
        hr \<leftarrow> parseUint (take 2 (drop 1 z)) 0 23;
        mm \<leftarrow> parseUint (take 2 (drop 4 z)) 0 59;
        if (z ! 0 = CHR ''-'' \<or> z ! 0 = CHR ''+'') \<and> z ! 3 = CHR '':''
        then Some ((if z ! 0 = CHR ''-'' then - 1 else 1) * int ((hr * 60 + mm) * 60))
        else None
      })"

text \<open>
  \<^verbatim>\<open>Time.UnmarshalJSON\<close> parses with \<^verbatim>\<open>parseStrictRFC3339\<close>, which first tries
  \<^verbatim>\<open>parseRFC3339\<close>, a parser for exactly the RFC 3339 texts, and falls back to
  \<^verbatim>\<open>time.Parse\<close> with the layout \<^verbatim>\<open>RFC3339\<close> for the others; what the fallback
  accepts is accepted (the stricter checks that follow it in the library are
  switched off there).

  \<^verbatim>\<open>parseRFC3339\<close>: the text must be \<^verbatim>\<open>YYYY-MM-DDTHH:MM:SS\<close>, an optional fraction,
  and the zone, with every number in its range and the day within the month. It is
  written in three parts: the date and the clock reading in the first nineteen
  bytes, the fraction, and the zone.
\<close>

definition parseDateTime :: "string \<Rightarrow> (nat \<times> nat \<times> nat \<times> nat \<times> nat \<times> nat) option" where
  "parseDateTime s =
     do {
       y \<leftarrow> parseUint (take 4 s) 0 9999;
       mo \<leftarrow> parseUint (take 2 (drop 5 s)) 1 12;
       d \<leftarrow> parseUint (take 2 (drop 8 s)) 1 (daysIn mo (int y));
       h \<leftarrow> parseUint (take 2 (drop 11 s)) 0 23;
       mi \<leftarrow> parseUint (take 2 (drop 14 s)) 0 59;
       sec \<leftarrow> parseUint (take 2 (drop 17 s)) 0 59;
       if s ! 4 = CHR ''-'' \<and> s ! 7 = CHR ''-'' \<and> s ! 10 = CHR ''T'' \<and>
          s ! 13 = CHR '':'' \<and> s ! 16 = CHR '':''
       then Some (y, mo, d, h, mi, sec) else None
     }"

text \<open>The fraction at the start of the text after the seconds: how many bytes it
  takes, and the nanoseconds it stands for. A period that no digit follows is no
  fraction.\<close>

definition parseFraction :: "string \<Rightarrow> nat \<times> nat" where
  "parseFraction rest =
     (if 2 \<le> length rest \<and> rest ! 0 = CHR ''.'' \<and> isDigit (rest ! 1)
      then (1 + spanDigits (tl rest),
            parseNanoseconds (take (spanDigits (tl rest)) (tl rest)))
      else (0, 0))"

definition parseRFC3339 :: "string \<Rightarrow> Time option" where
  "parseRFC3339 s =
     (if length s < 19 then None
      else
        case parseDateTime s of
          None \<Rightarrow> None
        | Some (y, mo, d, h, mi, sec) \<Rightarrow>
            (case parseFraction (drop 19 s) of
               (n, ns) \<Rightarrow>
                 (case parseZone (drop n (drop 19 s)) of
                    None \<Rightarrow> None
                  | Some off \<Rightarrow>
                      Some \<lparr>Year = int y, Month = mo, Day = d, Hour = h, Minute = mi,
                            Second = sec, Nanosecond = ns, ZoneOffset = off\<rparr>)))"

text \<open>
  The fallback, \<^verbatim>\<open>time.Parse(time.RFC3339, s)\<close>, reads the layout
  \<^verbatim>\<open>2006-01-02T15:04:05Z07:00\<close> piece by piece. \<^verbatim>\<open>getnum\<close> reads a number of two
  digits, or of one digit where the layout does not fix the width.
\<close>

definition getnum :: "string \<Rightarrow> bool \<Rightarrow> (nat \<times> string) option" where
  "getnum s fixed =
     (case s of
        [] \<Rightarrow> None
      | c0 # r0 \<Rightarrow>
          if \<not> isDigit c0 then None
          else (case r0 of
                  [] \<Rightarrow> if fixed then None else Some (of_char c0 - 48, r0)
                | c1 # r1 \<Rightarrow>
                    if \<not> isDigit c1
                    then (if fixed then None else Some (of_char c0 - 48, r0))
                    else Some ((of_char c0 - 48) * 10 + (of_char c1 - 48), r1)))"

text \<open>\<^verbatim>\<open>skip\<close> for a literal character of the layout.\<close>

definition skipLit :: "char \<Rightarrow> string \<Rightarrow> string option" where
  "skipLit c s = (case s of [] \<Rightarrow> None | x # xs \<Rightarrow> if x = c then Some xs else None)"

text \<open>The fraction that may follow the seconds though the layout has none: a
  period or a comma and at least one digit.\<close>

definition lenientFraction :: "string \<Rightarrow> nat \<times> nat" where
  "lenientFraction rest =
     (if 2 \<le> length rest \<and> (rest ! 0 = CHR ''.'' \<or> rest ! 0 = CHR '','') \<and>
         isDigit (rest ! 1)
      then (1 + spanDigits (tl rest),
            parseNanoseconds (take (spanDigits (tl rest)) (tl rest)))
      else (0, 0))"

text \<open>The zone of the layout, \<^verbatim>\<open>Z07:00\<close>, and what is left of the text: \<^verbatim>\<open>Z\<close>, or
  a sign, two digits of hours, a colon and two digits of minutes, where an hour of
  24 and a minute of 60 are let through.\<close>

definition lenientZone :: "string \<Rightarrow> (int \<times> string) option" where
  "lenientZone z =
     (case z of
        [] \<Rightarrow> None
      | c # cs \<Rightarrow>
          if c = CHR ''Z'' then Some (0, cs)
          else if length z < 6 \<or> z ! 3 \<noteq> CHR '':'' then None
          else do {
            (hr, r1) \<leftarrow> getnum (take 2 (drop 1 z)) True;
            (mm, r2) \<leftarrow> getnum (take 2 (drop 4 z)) True;
            if 24 < hr \<or> 60 < mm then None
            else if c = CHR ''+'' then Some (int ((hr * 60 + mm) * 60), drop 6 z)
            else if c = CHR ''-'' then Some (- int ((hr * 60 + mm) * 60), drop 6 z)
            else None
          })"

definition lenientFields ::
  "string \<Rightarrow> (nat \<times> nat \<times> nat \<times> nat \<times> nat \<times> nat \<times> int \<times> string) option" where
  "lenientFields v =
     do {
       v1 \<leftarrow> skipLit (CHR ''-'') (drop 4 v);
       (mo, v2) \<leftarrow> getnum v1 True;
       v3 \<leftarrow> skipLit (CHR ''-'') v2;
       (d, v4) \<leftarrow> getnum v3 True;
       v5 \<leftarrow> skipLit (CHR ''T'') v4;
       (h, v6) \<leftarrow> getnum v5 False;
       v7 \<leftarrow> skipLit (CHR '':'') v6;
       (mi, v8) \<leftarrow> getnum v7 True;
       v9 \<leftarrow> skipLit (CHR '':'') v8;
       (sec, v10) \<leftarrow> getnum v9 True;
       (off, v12) \<leftarrow> lenientZone (drop (fst (lenientFraction v10)) v10);
       Some (mo, d, h, mi, sec, snd (lenientFraction v10), off, v12)
     }"

text \<open>The year is four digits. The month, the hour, the minute and the second must
  be in their ranges and the day within the month, and no text may be left.\<close>

definition Parse_RFC3339 :: "string \<Rightarrow> Time option" where
  "Parse_RFC3339 v =
     (if length v < 4 \<or> \<not> list_all isDigit (take 4 v) then None
      else
        case lenientFields v of
          None \<Rightarrow> None
        | Some (mo, d, h, mi, sec, ns, off, rest) \<Rightarrow>
            if mo < 1 \<or> 12 < mo \<or> 24 \<le> h \<or> 60 \<le> mi \<or> 60 \<le> sec \<or> rest \<noteq> [] \<or>
               d < 1 \<or> daysIn mo (int (digitsVal (take 4 v))) < d
            then None
            else Some \<lparr>Year = int (digitsVal (take 4 v)), Month = mo, Day = d, Hour = h,
                       Minute = mi, Second = sec, Nanosecond = ns, ZoneOffset = off\<rparr>)"

definition parseStrictRFC3339 :: "string \<Rightarrow> Time option" where
  "parseStrictRFC3339 s =
     (case parseRFC3339 s of Some t \<Rightarrow> Some t | None \<Rightarrow> Parse_RFC3339 s)"

section \<open>Deserialization (encoding/json: Unmarshal)\<close>

text \<open>
  \<^verbatim>\<open>Time.UnmarshalJSON\<close> on a value: \<^verbatim>\<open>null\<close> leaves the time as it is; a string
  literal is parsed, as it is written between the quotes; anything else is an error.
\<close>

definition Time_UnmarshalJSON :: "json \<Rightarrow> Time \<Rightarrow> error + Time" where
  "Time_UnmarshalJSON v cur =
     (case v of
        JNull \<Rightarrow> Inr cur
      | JString raw \<Rightarrow>
          (case parseStrictRFC3339 raw of None \<Rightarrow> Inl TimeParseError | Some t \<Rightarrow> Inr t)
      | _ \<Rightarrow> Inl TimeParseError)"

text \<open>
  A value stored into a field of kind string (\<open>Application\<close>, \<open>Level\<close>,
  \<open>Message\<close>): a string literal sets it, \<^verbatim>\<open>null\<close> leaves it, and any other value
  is an \<^verbatim>\<open>UnmarshalTypeError\<close>, which is kept while decoding goes on.
\<close>

definition storeString :: "json \<Rightarrow> string \<Rightarrow> string \<Rightarrow> string \<times> error option" where
  "storeString v field cur =
     (case v of
        JString raw \<Rightarrow>
          (case unquote raw of Some s \<Rightarrow> (s, None) | None \<Rightarrow> (cur, Some SyntaxError))
      | JNull \<Rightarrow> (cur, None)
      | JBool b \<Rightarrow> (cur, Some (UnmarshalTypeError ''bool'' field))
      | JNumber n \<Rightarrow> (cur, Some (UnmarshalTypeError ''number'' field))
      | JArray xs \<Rightarrow> (cur, Some (UnmarshalTypeError ''array'' field))
      | JObject ms \<Rightarrow> (cur, Some (UnmarshalTypeError ''object'' field)))"

text \<open>\<^verbatim>\<open>saveError\<close> keeps the first error.\<close>

definition saveError :: "error option \<Rightarrow> error option \<Rightarrow> error option" where
  "saveError saved err = (case saved of None \<Rightarrow> err | Some e \<Rightarrow> Some e)"

text \<open>
  A key names a field when it is the field's name, or equal to it under
  \<^verbatim>\<open>foldName\<close>: ASCII letters without regard to case, with the two runes that
  Unicode folds into them, U+017F into \<open>S\<close> and U+212A into \<open>K\<close>. The folds of the
  other runes are not ASCII and cannot make a key equal to a field's name; the model
  leaves those runes as they are.
\<close>

definition foldRune :: "nat \<Rightarrow> nat" where
  "foldRune r =
     (if 97 \<le> r \<and> r \<le> 122 then r - 32
      else if r = 0x17F then 83
      else if r = 0x212A then 75
      else r)"

fun foldName :: "string \<Rightarrow> string" where
  "foldName [] = []"
| "foldName (c # cs) =
     (if (of_char c :: nat) < 0x80 then char_of (foldRune (of_char c)) # foldName cs
      else case DecodeRune (c # cs) of
        (r, w) \<Rightarrow> EncodeRune (foldRune r) @ foldName (drop (w - 1) cs))"

datatype field = FTimestamp | FApplication | FLevel | FMessage

definition fieldNames :: "(string \<times> field) list" where
  "fieldNames =
     [(''timestamp'', FTimestamp), (''application'', FApplication),
      (''level'', FLevel), (''message'', FMessage)]"

definition findField :: "string \<Rightarrow> field option" where
  "findField key =
     (case map_of fieldNames key of
        Some f \<Rightarrow> Some f
      | None \<Rightarrow> map_of (map (\<lambda>(n, f). (foldName n, f)) fieldNames) (foldName key))"

text \<open>
  One member stored into the entry. A member that names no field is skipped. An
  \<^verbatim>\<open>UnmarshalTypeError\<close> is kept (the first one) and the decoding goes on; an error
  of \<^verbatim>\<open>Time.UnmarshalJSON\<close> ends the decoding at once.
\<close>

definition storeMember ::
  "string \<Rightarrow> json \<Rightarrow> LogEntry \<Rightarrow> error option \<Rightarrow> error + (LogEntry \<times> error option)" where
  "storeMember key v entry saved =
     (case findField key of
        None \<Rightarrow> Inr (entry, saved)
      | Some FTimestamp \<Rightarrow>
          (case Time_UnmarshalJSON v (Timestamp entry) of
             Inl err \<Rightarrow> Inl err
           | Inr t \<Rightarrow> Inr (entry\<lparr>Timestamp := t\<rparr>, saved))
      | Some FApplication \<Rightarrow>
          (case storeString v ''application'' (Application entry) of
             (x, err) \<Rightarrow> Inr (entry\<lparr>Application := x\<rparr>, saveError saved err))
      | Some FLevel \<Rightarrow>
          (case storeString v ''level'' (Level entry) of
             (x, err) \<Rightarrow> Inr (entry\<lparr>Level := x\<rparr>, saveError saved err))
      | Some FMessage \<Rightarrow>
          (case storeString v ''message'' (Message entry) of
             (x, err) \<Rightarrow> Inr (entry\<lparr>Message := x\<rparr>, saveError saved err)))"

text \<open>The members of the object in the order of the text, so that a later member
  with the same name overwrites an earlier one.\<close>

fun decodeMembers ::
  "(string \<times> json) list \<Rightarrow> LogEntry \<Rightarrow> error option \<Rightarrow> LogEntry \<times> error option" where
  "decodeMembers [] entry saved = (entry, saved)"
| "decodeMembers ((rawkey, v) # ms) entry saved =
     (case unquote rawkey of
        None \<Rightarrow> (entry, Some SyntaxError)
      | Some key \<Rightarrow>
          (case storeMember key v entry saved of
             Inl err \<Rightarrow> (entry, Some err)
           | Inr (entry', saved') \<Rightarrow> decodeMembers ms entry' saved'))"

text \<open>
  \<^verbatim>\<open>json.Unmarshal(data, &entry)\<close>: the entry as it is after the call, and the
  error. Input that is not one JSON value is a \<^verbatim>\<open>SyntaxError\<close> and leaves the entry
  untouched; \<^verbatim>\<open>null\<close> does nothing; a value that is no object cannot be stored
  into the struct.
\<close>

definition Unmarshal :: "string \<Rightarrow> LogEntry \<Rightarrow> LogEntry \<times> error option" where
  "Unmarshal data entry =
     (case parse data of
        None \<Rightarrow> (entry, Some SyntaxError)
      | Some v \<Rightarrow>
          (case v of
             JObject ms \<Rightarrow> decodeMembers ms entry None
           | JNull \<Rightarrow> (entry, None)
           | JBool b \<Rightarrow> (entry, Some (UnmarshalTypeError ''bool'' ''LogEntry''))
           | JNumber n \<Rightarrow> (entry, Some (UnmarshalTypeError ''number'' ''LogEntry''))
           | JString x \<Rightarrow> (entry, Some (UnmarshalTypeError ''string'' ''LogEntry''))
           | JArray xs \<Rightarrow> (entry, Some (UnmarshalTypeError ''array'' ''LogEntry''))))"

text \<open>\<^verbatim>\<open>FromJson\<close> returns the pointer to the entry together with the error,
  whether or not there is one.\<close>

definition FromJson :: "string \<Rightarrow> LogEntry \<times> error option" where
  "FromJson data = Unmarshal data zeroEntry"

section \<open>Console output\<close>

definition esc :: char where "esc = CHR 0x1B"
definition newline :: char where "newline = CHR 0x0A"

text \<open>What one print statement writes to the console: bytes, or a line made of
  a text and an error value (the wording of the library's errors is not modelled).\<close>

datatype console_write = Bytes string | ErrorLine string error

section \<open>Producer (cmd/producer)\<close>

record LogProducer =
  appName :: string

definition infoMessages :: "string list" where
  "infoMessages =
     [''User logged in successfully'', ''data Retrieved successfully'',
      ''Service Started'', ''Request completed'']"

definition warnMessages :: "string list" where
  "warnMessages =
     [''Slow Database query'', ''High Memory usage'', ''Connection Pool almost full'',
      ''Password failed for user'', ''Unauthenticated user trying to access data'']"

definition errorMessages :: "string list" where
  "errorMessages =
     [''Database Connection Failed'', ''Invalid user credentials'',
      ''Backup Database not responding'', ''Service Unavailable'', ''Request Timeout'']"

text \<open>
  The random source is explicit: \<open>levelRand\<close> is the value \<^verbatim>\<open>rand.Float32()\<close>
  returns, a \<^verbatim>\<open>float32\<close> in \<open>[0, 1)\<close> taken as the exact number it stands for, and
  \<open>k\<close> the draw behind \<^verbatim>\<open>rand.Intn(n)\<close>, which returns a number in \<open>[0, n)\<close>.
\<close>

definition Intn :: "nat \<Rightarrow> nat \<Rightarrow> nat" where
  "Intn k n = k mod n"

text \<open>
  In \<^verbatim>\<open>levelRand < 0.6\<close> the constant is converted to the type of \<open>levelRand\<close>: the
  comparison is with the \<^verbatim>\<open>float32\<close> nearest to the literal. Between one half and
  one the \<^verbatim>\<open>float32\<close> values are the multiples of \<^verbatim>\<open>2^-24\<close>, and the nearest ones to
  0.6, 0.8 and 0.95 are the following (the first two above the literal, the third
  below it).
\<close>

definition float32_0_6 :: real where "float32_0_6 = 10066330 / 2 ^ 24"
definition float32_0_8 :: real where "float32_0_8 = 13421773 / 2 ^ 24"
definition float32_0_95 :: real where "float32_0_95 = 15938355 / 2 ^ 24"

definition generateLogEntry :: "LogProducer \<Rightarrow> real \<Rightarrow> nat \<Rightarrow> Time \<Rightarrow> LogEntry" where
  "generateLogEntry lp levelRand k now =
     (let (level, message) =
        (if levelRand < float32_0_6 then
           (INFO, infoMessages ! Intn k (length infoMessages))
         else if levelRand < float32_0_8 then
           (WARN, warnMessages ! Intn k (length warnMessages))
         else if levelRand < float32_0_95 then
           (ERROR, errorMessages ! Intn k (length errorMessages))
         else (DEBUG, ''debug trace information''))
      in \<lparr>Timestamp = now, Application = appName lp, Level = level, Message = message\<rparr>)"

text \<open>The fields of \<^verbatim>\<open>sarama.ProducerMessage\<close> that \<^verbatim>\<open>sendLog\<close> sets; the
  message's timestamp is named \<open>MsgTimestamp\<close> here.\<close>

record ProducerMessage =
  Topic :: string
  Key :: string
  Value :: string
  MsgTimestamp :: Time

text \<open>
  What one call of \<^verbatim>\<open>sendLog\<close> does: the error it returns, the messages it hands to
  \<^verbatim>\<open>SendMessage\<close>, and what it prints. The broker is external: \<open>reply\<close> is what
  \<^verbatim>\<open>SendMessage\<close> returns for the message, an error or the partition and offset.
\<close>

record SendOutcome =
  Result :: "error option"
  Sent :: "ProducerMessage list"
  Printed :: "console_write list"

definition sendLog ::
  "LogProducer \<Rightarrow> real \<Rightarrow> nat \<Rightarrow> Time \<Rightarrow> error + (32 word \<times> 64 word) \<Rightarrow> SendOutcome" where
  "sendLog lp levelRand k now reply =
     (let logentry = generateLogEntry lp levelRand k now in
      case ToJson logentry of
        Inl err \<Rightarrow>
          \<lparr>Result = Some (Wrapped ''failed to marshal logentry '' err), Sent = [],
           Printed = []\<rparr>
      | Inr jsondata \<Rightarrow>
          let msg = \<lparr>Topic = ''raw-logs'', Key = Application logentry, Value = jsondata,
                     MsgTimestamp = Timestamp logentry\<rparr>
          in (case reply of
               Inl err \<Rightarrow>
                 \<lparr>Result = Some (Wrapped ''failed to send message '' err), Sent = [msg],
                  Printed = []\<rparr>
             | Inr (part, offs) \<Rightarrow>
                 \<lparr>Result = None, Sent = [msg],
                  Printed = [Bytes (''['' @ Application logentry @
                    ''] Sent lot to partition '' @ showInt (sint part) @ '', offset '' @
                    showInt (sint offs) @ '': '' @ Level logentry @ '' - '' @
                    Message logentry @ [newline])]\<rparr>))"

text \<open>
  The loop of \<^verbatim>\<open>main\<close>. Each event is what the \<^verbatim>\<open>select\<close> receives: a tick, with
  the random draws, the clock reading and the broker's reply of that tick, or the
  interrupt signal. The state is the console output and the messages handed to the
  broker so far; the loop ends at the signal, or waits when the events are used up.
\<close>

datatype pevent = Tick real nat Time "error + (32 word \<times> 64 word)" | Signal

datatype status = Running | Returned | Fatal error | Panicked error

record pstate =
  Console :: "console_write list"
  Outbox :: "ProducerMessage list"

fun produce :: "LogProducer \<Rightarrow> pevent list \<Rightarrow> pstate \<Rightarrow> pstate \<times> status" where
  "produce lp [] s = (s, Running)"
| "produce lp (Tick levelRand k now reply # evs) s =
     (let out = sendLog lp levelRand k now reply;
          s1 = s\<lparr>Console := Console s @ Printed out, Outbox := Outbox s @ Sent out\<rparr>
      in case Result out of
           Some err \<Rightarrow>
             produce lp evs (s1\<lparr>Console := Console s1 @ [ErrorLine ''Error sending log '' err]\<rparr>)
         | None \<Rightarrow> produce lp evs s1)"
| "produce lp (Signal # evs) s =
     (s\<lparr>Console := Console s @ [Bytes (''Shutting down Producer...'' @ [newline])]\<rparr>,
      Returned)"

definition appNames :: "string list" where
  "appNames = [''userService'', ''DatabaseService'', ''AuthService'', ''PaymentService'']"

text \<open>\<^verbatim>\<open>main\<close>: \<open>conn\<close> is the error of \<^verbatim>\<open>sarama.NewSyncProducer\<close>, if any; with one,
  \<^verbatim>\<open>log.Fatal\<close> ends the process before the loop starts.\<close>

definition producer_main :: "nat \<Rightarrow> error option \<Rightarrow> pevent list \<Rightarrow> pstate \<times> status" where
  "producer_main k0 conn evs =
     (let currentApp = appNames ! Intn k0 (length appNames) in
      case conn of
        Some err \<Rightarrow>
          (\<lparr>Console = [], Outbox = []\<rparr>, Fatal (Wrapped ''failed to create producer '' err))
      | None \<Rightarrow>
          produce \<lparr>appName = currentApp\<rparr> evs
            \<lparr>Console =
               [Bytes (''starting log prdoducer for application  '' @ currentApp @ [newline]),
                Bytes (''Press Ctrl + c to stop...'' @ [newline])],
             Outbox = []\<rparr>)"

section \<open>Consumer (cmd/consumer)\<close>

text \<open>The fields of \<^verbatim>\<open>sarama.ConsumerMessage\<close> that the consumer reads; the
  message's value is named \<open>MsgValue\<close> here.\<close>

record ConsumerMessage =
  MsgValue :: string
  Partition :: "32 word"
  Offset :: "64 word"

definition colors :: "(LogLevel \<times> string) list" where
  "colors =
     [(DEBUG, esc # ''[36m''), (INFO, esc # ''[32m''), (WARN, esc # ''[33m''),
      (ERROR, esc # ''[31m''), (FATAL, esc # ''[35m'')]"

definition reset :: string where "reset = esc # ''[0m''"

text \<open>\<^verbatim>\<open>displayLog\<close>: the bytes of its two \<^verbatim>\<open>Printf\<close> and its \<^verbatim>\<open>Println\<close>.\<close>

definition displayLog :: "LogEntry \<Rightarrow> 32 word \<Rightarrow> 64 word \<Rightarrow> string" where
  "displayLog entry part offs =
     (let color = (case map_of colors (Level entry) of Some c \<Rightarrow> c | None \<Rightarrow> reset) in
      color @ ''['' @ formatClock (Timestamp entry) @ ''] ['' @ Application entry @
      ''] ['' @ Level entry @ ''] '' @ Message entry @ reset @
      '' (p:'' @ showInt (sint part) @ '', o:'' @ showInt (sint offs) @ '')'' @
      [newline])"

definition proccessLogMessage :: "ConsumerMessage \<Rightarrow> console_write" where
  "proccessLogMessage message =
     (case FromJson (MsgValue message) of
        (logEntry, Some err) \<Rightarrow> ErrorLine ''Error parsing the log message '' err
      | (logEntry, None) \<Rightarrow>
          Bytes (displayLog logEntry (Partition message) (Offset message)))"

text \<open>
  The loop of \<^verbatim>\<open>ConsumeClaim\<close>. Each event is what its \<^verbatim>\<open>select\<close> receives: a
  message of the claim (none when the channel is closed), or the end of the
  session's context. The state is the console output and the messages marked as
  processed; the loop waits when the events are used up.
\<close>

datatype cevent = Received "ConsumerMessage option" | Done

record session =
  Stdout :: "console_write list"
  Marked :: "ConsumerMessage list"

fun ConsumeClaim :: "cevent list \<Rightarrow> session \<Rightarrow> session \<times> status" where
  "ConsumeClaim [] s = (s, Running)"
| "ConsumeClaim (Received None # evs) s = (s, Returned)"
| "ConsumeClaim (Received (Some message) # evs) s =
     ConsumeClaim evs
       (s\<lparr>Stdout := Stdout s @ [proccessLogMessage message],
          Marked := Marked s @ [message]\<rparr>)"
| "ConsumeClaim (Done # evs) s = (s, Returned)"

text \<open>
  The goroutine of \<^verbatim>\<open>main\<close> that calls \<^verbatim>\<open>client.Consume\<close> in a loop. Each element
  of the list is what one call returns at the end of its session. An error goes to
  \<^verbatim>\<open>log.Panicf\<close>; after a session that ended without one, the context is checked,
  and as \<^verbatim>\<open>context.Background()\<close> is never cancelled the loop calls \<^verbatim>\<open>Consume\<close>
  again. The number counts the sessions that have ended.
\<close>

fun consumeLoop :: "error option list \<Rightarrow> nat \<Rightarrow> nat \<times> status" where
  "consumeLoop [] n = (n, Running)"
| "consumeLoop (Some err # rs) n = (Suc n, Panicked (Wrapped ''Error from Consumer '' err))"
| "consumeLoop (None # rs) n = consumeLoop rs (Suc n)"

text \<open>\<^verbatim>\<open>main\<close>: \<open>conn\<close> is the error of \<^verbatim>\<open>sarama.NewConsumerGroup\<close>, if any.\<close>

definition consumer_main :: "error option \<Rightarrow> error option list \<Rightarrow> nat \<times> status" where
  "consumer_main conn rs =
     (case conn of
        Some err \<Rightarrow> (0, Fatal (Wrapped ''Error creating consumerGroup client '' err))
      | None \<Rightarrow> consumeLoop rs 0)"

section \<open>Notions used to state the properties\<close>

text \<open>A process that has ended through \<^verbatim>\<open>log.Fatal\<close> or a panic.\<close>

definition crashed :: "status \<Rightarrow> bool" where
  "crashed st = (case st of Fatal e \<Rightarrow> True | Panicked e \<Rightarrow> True | _ \<Rightarrow> False)"

text \<open>The messages the loop of \<^verbatim>\<open>ConsumeClaim\<close> has pulled from the claim before
  it returns: those received before the closed channel or the end of the session's
  context is observed.\<close>

fun pulled :: "cevent list \<Rightarrow> ConsumerMessage list" where
  "pulled (Received (Some message) # evs) = message # pulled evs"
| "pulled _ = []"

text \<open>The events the loop of the producer's \<^verbatim>\<open>main\<close> handles before it returns:
  the ticks that come before the first signal.\<close>

fun beforeSignal :: "pevent list \<Rightarrow> pevent list" where
  "beforeSignal (Tick levelRand k now reply # evs) =
     Tick levelRand k now reply # beforeSignal evs"
| "beforeSignal _ = []"

text \<open>What one tick writes to the console, the error line of a failed
  \<open>sendLog\<close> included, and what it hands to the broker.\<close>

definition tickWrites :: "LogProducer \<Rightarrow> pevent \<Rightarrow> console_write list" where
  "tickWrites lp ev =
     (case ev of
        Tick levelRand k now reply \<Rightarrow>
          Printed (sendLog lp levelRand k now reply) @
          (case Result (sendLog lp levelRand k now reply) of
             Some err \<Rightarrow> [ErrorLine ''Error sending log '' err]
           | None \<Rightarrow> [])
      | Signal \<Rightarrow> [])"

definition tickSent :: "LogProducer \<Rightarrow> pevent \<Rightarrow> ProducerMessage list" where
  "tickSent lp ev =
     (case ev of
        Tick levelRand k now reply \<Rightarrow> Sent (sendLog lp levelRand k now reply)
      | Signal \<Rightarrow> [])"

text \<open>The strings that are valid levels.\<close>

definition validLevel :: "LogLevel \<Rightarrow> bool" where
  "validLevel l \<longleftrightarrow> l \<in> set levels"

text \<open>A truncation of a byte sequence: a prefix that is not all of it.\<close>

definition truncation :: "string \<Rightarrow> string \<Rightarrow> bool" where
  "truncation p s \<longleftrightarrow> length p < length s \<and> take (length p) s = p"

text \<open>A clock reading used in the examples: 29 February 2024, 13:05:09.12, in a
  zone five and a half hours east of UTC.\<close>

definition exampleTime :: Time where
  "exampleTime = \<lparr>Year = 2024, Month = 2, Day = 29, Hour = 13, Minute = 5, Second = 9,
     Nanosecond = 120000000, ZoneOffset = 19800\<rparr>"

definition exampleRecord :: string where
  \<open>exampleRecord = ''{"timestamp":"2024-02-29T13:05:09.12+05:30","application":"AuthService","level":"WARN","message":"Connection Pool almost full"}''\<close>

text \<open>A record whose message is written with the escape of a newline.\<close>

definition twoLineRecord :: string where
  \<open>twoLineRecord =
     ''{"timestamp":"2024-02-29T13:05:09.12+05:30","application":"AuthService","level":"INFO","message":"line one'' @
     [backslash] @ ''nline two"}''\<close>

definition exampleEntry :: LogEntry where
  "exampleEntry = \<lparr>Timestamp = exampleTime, Application = ''AuthService'', Level = WARN,
     Message = ''Connection Pool almost full''\<rparr>"

declare digitsOf.simps [simp del]

lemmas level_defs = DEBUG_def INFO_def WARN_def ERROR_def FATAL_def

section \<open>Evaluation on concrete inputs\<close>

lemma digitsOf_lt10: "n < 10 \<Longrightarrow> digitsOf n = [digit n]"
  by (simp add: digitsOf.simps)

lemma digitsOf_ge10: "10 \<le> n \<Longrightarrow> digitsOf n = digitsOf (n div 10) @ [digit (n mod 10)]"
  by (subst digitsOf.simps) simp

lemma replicate_numeral: "replicate (numeral k) x = x # replicate (pred_numeral k) x"
  by (simp add: numeral_eq_Suc)

lemmas eval_digits = digitsOf_lt10 digitsOf_ge10 digit_def char_of_eq_iff replicate_numeral

lemmas eval_time = formatRFC3339Nano_def appendZone_def appendNano_def appendInt_def
  Let_def eval_digits

lemmas eval_string = escapeASCII_def htmlSafe_def quote_def backslash_def

lemmas eval_marshal = ToJson_def Marshal_def Time_MarshalJSON_def appendString_def
  jsonKey_def eval_time eval_string

lemmas eval_generate = generateLogEntry_def float32_0_6_def float32_0_8_def float32_0_95_def
  Intn_def infoMessages_def warnMessages_def errorMessages_def level_defs

lemmas eval_chars = isSpace_def isDigit_def isHexDigit_def quote_def backslash_def

lemmas eval_lex = eval_chars cons_token_def scanNumber_def scanFrac_def scanExp_def
  spanDigits_def signLen_def minusLen_def

lemmas eval_time_parse = parseStrictRFC3339_def parseRFC3339_def parseDateTime_def
  parseFraction_def parseZone_def parseUint_def parseNanoseconds_def digitsVal_def daysIn_def
  isLeap_def spanDigits_def isDigit_def

lemmas eval_time_lenient = Parse_RFC3339_def lenientFields_def lenientZone_def
  lenientFraction_def getnum_def skipLit_def

lemmas eval_unmarshal = FromJson_def Unmarshal_def parse_def eval_lex storeMember_def
  findField_def fieldNames_def storeString_def saveError_def Time_UnmarshalJSON_def
  prepend_def eval_time_parse zeroEntry_def zeroTime_def maxNestingDepth_def

lemmas eval_display = displayLog_def colors_def reset_def formatClock_def showInt_def
  appendInt_def Let_def eval_digits level_defs

section \<open>Generator\<close>

text \<open>
  C4, as stated, fails: the draw \<^verbatim>\<open>15938355 / 2^24\<close>, the \<^verbatim>\<open>float32\<close> nearest to 0.95,
  is below 0.95 and not below 0.8, and the level generated for it is DEBUG, not
  ERROR.
\<close>

theorem level_threshold_counterexample:
  "Level (generateLogEntry \<lparr>appName = ''AuthService''\<rparr> (15938355 / 2 ^ 24) 7 exampleTime) =
     DEBUG \<and>
   (15938355 / 2 ^ 24 :: real) < 0.95 \<and> \<not> (15938355 / 2 ^ 24 :: real) < 0.8 \<and>
   DEBUG \<noteq> ERROR"
  by (simp add: eval_generate)

text \<open>
  C4, amended. Whatever the random source yields, the level of the generated entry
  is INFO for a draw below the \<^verbatim>\<open>float32\<close> nearest to 0.6, WARN below the one nearest
  to 0.8, ERROR below the one nearest to 0.95 and DEBUG otherwise; it is never
  FATAL. The three thresholds are within \<^verbatim>\<open>2^-25\<close> of the literals, the first two above
  them and the third below.
\<close>

theorem generateLogEntry_level:
  "Level (generateLogEntry lp levelRand k now) =
     (if levelRand < float32_0_6 then INFO else if levelRand < float32_0_8 then WARN
      else if levelRand < float32_0_95 then ERROR else DEBUG) \<and>
   Level (generateLogEntry lp levelRand k now) \<noteq> FATAL \<and>
   0.6 < float32_0_6 \<and> float32_0_6 - 0.6 < 1 / 2 ^ 25 \<and>
   0.8 < float32_0_8 \<and> float32_0_8 - 0.8 < 1 / 2 ^ 25 \<and>
   float32_0_95 < 0.95 \<and> 0.95 - float32_0_95 < 1 / 2 ^ 25"
  by (simp add: generateLogEntry_def level_defs float32_0_6_def float32_0_8_def
      float32_0_95_def)

theorem generateLogEntry_level_witness:
  "Level (generateLogEntry \<lparr>appName = ''AuthService''\<rparr> (31 / 32) 7 zeroTime) = DEBUG \<and>
   Level (generateLogEntry \<lparr>appName = ''AuthService''\<rparr> (15 / 16) 7 zeroTime) = ERROR \<and>
   Level (generateLogEntry \<lparr>appName = ''AuthService''\<rparr> (3 / 4) 7 zeroTime) = WARN \<and>
   Level (generateLogEntry \<lparr>appName = ''AuthService''\<rparr> (1 / 2) 7 zeroTime) = INFO \<and>
   Level (generateLogEntry \<lparr>appName = ''AuthService''\<rparr> (31 / 32) 7 zeroTime) \<noteq> FATAL"
  using generateLogEntry_level [of "\<lparr>appName = ''AuthService''\<rparr>" "31 / 32" 7 zeroTime]
    generateLogEntry_level [of "\<lparr>appName = ''AuthService''\<rparr>" "15 / 16" 7 zeroTime]
    generateLogEntry_level [of "\<lparr>appName = ''AuthService''\<rparr>" "3 / 4" 7 zeroTime]
    generateLogEntry_level [of "\<lparr>appName = ''AuthService''\<rparr>" "1 / 2" 7 zeroTime]
  by (simp add: level_defs float32_0_6_def float32_0_8_def float32_0_95_def)

section \<open>Publisher\<close>

lemma generateLogEntry_fields:
  "Application (generateLogEntry lp levelRand k now) = appName lp"
  "Timestamp (generateLogEntry lp levelRand k now) = now"
  by (simp_all add: generateLogEntry_def Let_def split: prod.splits)

lemma Sent_sendLog:
  "Sent (sendLog lp levelRand k now reply) =
     (case ToJson (generateLogEntry lp levelRand k now) of
        Inl err \<Rightarrow> []
      | Inr bytes \<Rightarrow>
          [\<lparr>Topic = ''raw-logs'', Key = appName lp, Value = bytes, MsgTimestamp = now\<rparr>])"
  by (simp add: sendLog_def Let_def generateLogEntry_fields split: sum.splits prod.splits)

lemma produce_Tick:
  "produce lp (Tick levelRand k now reply # evs) s =
     produce lp evs
       (s\<lparr>Console := Console s @ Printed (sendLog lp levelRand k now reply) @
            (case Result (sendLog lp levelRand k now reply) of
               Some err \<Rightarrow> [ErrorLine ''Error sending log '' err] | None \<Rightarrow> []),
          Outbox := Outbox s @ Sent (sendLog lp levelRand k now reply)\<rparr>)"
  by (cases s) (simp add: Let_def split: option.splits)

lemma produce_keys:
  "\<forall>m\<in>set (Outbox s). Key m = appName lp \<Longrightarrow>
   \<forall>m\<in>set (Outbox (fst (produce lp evs s))). Key m = appName lp"
proof (induction evs arbitrary: s)
  case Nil
  then show ?case by simp
next
  case (Cons ev evs)
  show ?case
  proof (cases ev)
    case (Tick levelRand k now reply)
    have sent: "\<forall>m\<in>set (Sent (sendLog lp levelRand k now reply)). Key m = appName lp"
      by (auto simp add: Sent_sendLog split: sum.splits)
    show ?thesis
      unfolding Tick produce_Tick
      by (rule Cons.IH) (use Cons.prems sent in auto)
  next
    case Signal
    with Cons.prems show ?thesis by simp
  qed
qed

lemma producer_main_keys:
  "\<forall>m\<in>set (Outbox (fst (producer_main k0 conn evs))).
      Key m = appNames ! Intn k0 (length appNames)"
proof (cases conn)
  case None
  have "\<forall>m\<in>set (Outbox (fst (produce \<lparr>appName = app\<rparr> evs \<lparr>Console = c, Outbox = []\<rparr>))).
      Key m = app" for app c
    using produce_keys [of "\<lparr>Console = c, Outbox = []\<rparr>" "\<lparr>appName = app\<rparr>" evs] by simp
  with None show ?thesis
    by (simp add: producer_main_def Let_def)
next
  case (Some err)
  then show ?thesis by (simp add: producer_main_def Let_def)
qed

text \<open>
  C5. The message that \<open>sendLog\<close> hands to the broker has the entry's application
  name as its key, the serialized entry as its value and the entry's timestamp as its
  timestamp; the application name is the producer's, so every message a producer
  sends carries the same key.
\<close>

theorem sendLog_wire_format:
  "Sent (sendLog lp levelRand k now reply) =
     (case ToJson (generateLogEntry lp levelRand k now) of
        Inl err \<Rightarrow> []
      | Inr bytes \<Rightarrow>
          [\<lparr>Topic = ''raw-logs'', Key = Application (generateLogEntry lp levelRand k now),
            Value = bytes, MsgTimestamp = Timestamp (generateLogEntry lp levelRand k now)\<rparr>]) \<and>
   Application (generateLogEntry lp levelRand k now) = appName lp \<and>
   (\<forall>m\<in>set (Outbox (fst (producer_main k0 conn evs))).
      Key m = appNames ! Intn k0 (length appNames))"
  using producer_main_keys [of k0 conn evs]
  by (simp add: Sent_sendLog generateLogEntry_fields split: sum.splits)

lemma ToJson_example:
  \<open>ToJson (generateLogEntry \<lparr>appName = ''AuthService''\<rparr> (3 / 4) 7 exampleTime) =
   Inr ''{"timestamp":"2024-02-29T13:05:09.12+05:30","application":"AuthService","level":"WARN","message":"Connection Pool almost full"}''\<close>
  by (simp add: eval_generate exampleTime_def eval_marshal)

theorem sendLog_wire_format_witness:
  \<open>Sent (sendLog \<lparr>appName = ''AuthService''\<rparr> (3 / 4) 7 exampleTime (Inr (2, 15))) =
     [\<lparr>Topic = ''raw-logs'', Key = ''AuthService'',
       Value = ''{"timestamp":"2024-02-29T13:05:09.12+05:30","application":"AuthService","level":"WARN","message":"Connection Pool almost full"}'',
       MsgTimestamp = exampleTime\<rparr>] \<and>
   map Key (Outbox (fst (producer_main 6 None [Tick (3 / 4) 7 exampleTime (Inr (2, 15))]))) =
     [''AuthService'']\<close>
proof -
  have out: "map Key (Outbox (fst (producer_main 6 None [Tick (3 / 4) 7 exampleTime (Inr (2, 15))]))) =
      [''AuthService'']"
    by (simp add: producer_main_def Let_def produce_Tick Sent_sendLog ToJson_example
        appNames_def Intn_def del: produce.simps(2))
  show ?thesis
    using sendLog_wire_format [of "\<lparr>appName = ''AuthService''\<rparr>" "3 / 4" 7 exampleTime
        "Inr (2, 15)" 6 None "[Tick (3 / 4) 7 exampleTime (Inr (2, 15))]"] out
    by (simp add: ToJson_example generateLogEntry_fields)
qed


section \<open>Serialization can fail\<close>

lemma ToJson_Inr_iff:
  "(\<exists>bytes. ToJson e = Inr bytes) \<longleftrightarrow>
     0 \<le> Year (Timestamp e) \<and> Year (Timestamp e) \<le> 9999 \<and>
     \<bar>ZoneOffset (Timestamp e)\<bar> < 86400"
  by (auto simp: ToJson_def Marshal_def Time_MarshalJSON_def split: sum.splits)

text \<open>
  C10, as stated, fails: an entry whose timestamp lies in the year 10000 is a
  \<open>LogEntry\<close> value, and \<open>ToJson\<close> returns an error for it.
\<close>

theorem ToJson_fails_counterexample:
  "ToJson \<lparr>Timestamp = exampleTime\<lparr>Year := 10000\<rparr>, Application = ''AuthService'',
      Level = INFO, Message = ''Service Started''\<rparr> =
   Inl (MarshalerError ''Time.MarshalJSON: year outside of range [0,9999]'')"
  by (simp add: ToJson_def Marshal_def Time_MarshalJSON_def exampleTime_def)

text \<open>
  C10, amended. \<open>ToJson\<close> returns bytes and no error exactly for the entries whose
  timestamp has a year from 0 to 9999 and a zone offset of less than 24 hours; the
  marshal-failure branch of \<open>sendLog\<close> is taken exactly when the clock reading is
  outside that range.
\<close>

theorem ToJson_succeeds_iff:
  "((\<exists>bytes. ToJson e = Inr bytes) \<longleftrightarrow>
     0 \<le> Year (Timestamp e) \<and> Year (Timestamp e) \<le> 9999 \<and>
     \<bar>ZoneOffset (Timestamp e)\<bar> < 86400) \<and>
   ((\<exists>err. Result (sendLog lp levelRand k now reply) =
        Some (Wrapped ''failed to marshal logentry '' err)) \<longleftrightarrow>
     \<not> (0 \<le> Year now \<and> Year now \<le> 9999 \<and> \<bar>ZoneOffset now\<bar> < 86400))"
proof -
  have "(\<exists>err. Result (sendLog lp levelRand k now reply) =
        Some (Wrapped ''failed to marshal logentry '' err)) \<longleftrightarrow>
     \<not> (\<exists>bytes. ToJson (generateLogEntry lp levelRand k now) = Inr bytes)"
    by (auto simp: sendLog_def Let_def split: sum.splits prod.splits)
  then show ?thesis
    by (simp only: ToJson_Inr_iff generateLogEntry_fields)
qed

theorem ToJson_succeeds_iff_witness:
  "(\<exists>bytes. ToJson \<lparr>Timestamp = exampleTime, Application = ''AuthService'', Level = INFO,
      Message = ''Service Started''\<rparr> = Inr bytes) \<and>
   (\<nexists>err. Result (sendLog \<lparr>appName = ''AuthService''\<rparr> (3 / 4) 7 exampleTime (Inr (2, 15))) =
        Some (Wrapped ''failed to marshal logentry '' err)) \<and>
   (\<exists>err. Result (sendLog \<lparr>appName = ''AuthService''\<rparr> (3 / 4) 7 (exampleTime\<lparr>Year := 10000\<rparr>)
        (Inr (2, 15))) = Some (Wrapped ''failed to marshal logentry '' err))"
  using ToJson_succeeds_iff [of "\<lparr>Timestamp = exampleTime, Application = ''AuthService'',
      Level = INFO, Message = ''Service Started''\<rparr>" "\<lparr>appName = ''AuthService''\<rparr>" "3 / 4" 7
      exampleTime "Inr (2, 15)"]
    ToJson_succeeds_iff [of "\<lparr>Timestamp = exampleTime, Application = ''AuthService'',
      Level = INFO, Message = ''Service Started''\<rparr>" "\<lparr>appName = ''AuthService''\<rparr>" "3 / 4" 7
      "exampleTime\<lparr>Year := 10000\<rparr>" "Inr (2, 15)"]
  by (simp add: exampleTime_def)

section \<open>Errors and the end of the process\<close>

lemma produce_not_crashed: "\<not> crashed (snd (produce lp evs s))"
proof (induction evs arbitrary: s)
  case Nil
  then show ?case by (simp add: crashed_def)
next
  case (Cons ev evs)
  show ?case
  proof (cases ev)
    case (Tick levelRand k now reply)
    show ?thesis unfolding Tick produce_Tick by (rule Cons.IH)
  next
    case Signal
    then show ?thesis by (simp add: crashed_def)
  qed
qed

lemma ConsumeClaim_not_crashed: "\<not> crashed (snd (ConsumeClaim evs s))"
  by (induction evs s rule: ConsumeClaim.induct) (simp_all add: crashed_def)

lemma sendLog_failed_prints_nothing:
  "Result (sendLog lp levelRand k now reply) = Some err \<Longrightarrow>
   Printed (sendLog lp levelRand k now reply) = []"
  by (auto simp: sendLog_def Let_def split: sum.splits prod.splits)

lemma tickWrites_Tick:
  "tickWrites lp (Tick levelRand k now reply) =
     Printed (sendLog lp levelRand k now reply) @
     (case Result (sendLog lp levelRand k now reply) of
        Some err \<Rightarrow> [ErrorLine ''Error sending log '' err]
      | None \<Rightarrow> [])"
  by (simp add: tickWrites_def)

lemma tickSent_Tick:
  "tickSent lp (Tick levelRand k now reply) = Sent (sendLog lp levelRand k now reply)"
  by (simp add: tickSent_def)

lemma produce_fst:
  "fst (produce lp evs s) =
     s\<lparr>Console := Console s @ concat (map (tickWrites lp) (beforeSignal evs)) @
          (if Signal \<in> set evs then [Bytes (''Shutting down Producer...'' @ [newline])]
           else []),
       Outbox := Outbox s @ concat (map (tickSent lp) (beforeSignal evs))\<rparr>"
proof (induction evs arbitrary: s)
  case Nil
  then show ?case by simp
next
  case (Cons ev evs)
  show ?case
  proof (cases ev)
    case (Tick levelRand k now reply)
    show ?thesis
      unfolding Tick produce_Tick Cons.IH
      by (simp add: tickWrites_Tick tickSent_Tick)
  next
    case Signal
    then show ?thesis by simp
  qed
qed

lemma produce_snd:
  "snd (produce lp evs s) = (if Signal \<in> set evs then Returned else Running)"
proof (induction evs arbitrary: s)
  case Nil
  then show ?case by simp
next
  case (Cons ev evs)
  show ?case
  proof (cases ev)
    case (Tick levelRand k now reply)
    show ?thesis
      unfolding Tick produce_Tick Cons.IH by simp
  next
    case Signal
    then show ?thesis by simp
  qed
qed

lemma consumeLoop_sessions:
  "consumeLoop (replicate j None @ rs) n = consumeLoop rs (n + j)"
  by (induction j arbitrary: n) simp_all

text \<open>
  C6, as stated, fails: with the connection established, a session that ends
  with an error ends the consumer in a panic.
\<close>

theorem session_error_counterexample:
  "consumer_main None [Some (BrokerError ''session lost'')] =
     (1, Panicked (Wrapped ''Error from Consumer '' (BrokerError ''session lost''))) \<and>
   crashed (snd (consumer_main None [Some (BrokerError ''session lost'')]))"
  by (simp add: consumer_main_def crashed_def)

text \<open>
  C6, amended. In the producer only the failure to connect at startup ends the
  process. A failed publish writes its error line to the console and leaves the
  loop running; whatever the events, the console holds what every tick before the
  signal wrote, failed or not, the broker was handed the message of every such
  tick, and the loop has returned if the signal came and is running otherwise. In
  the consumer the loop over the records never ends in a crash, and the failure to
  connect at startup ends the process; but an error returned by the consumer-group
  session goes to \<^verbatim>\<open>log.Panicf\<close> and ends the process, and the group is joined again
  only after a session that ended without error.
\<close>

theorem errors_and_termination:
  "(Result (sendLog lp levelRand k now reply) = Some err \<longrightarrow>
      produce lp [Tick levelRand k now reply] s =
        (s\<lparr>Console := Console s @ [ErrorLine ''Error sending log '' err],
           Outbox := Outbox s @ Sent (sendLog lp levelRand k now reply)\<rparr>, Running)) \<and>
   Console (fst (produce lp evs s)) =
     Console s @ concat (map (tickWrites lp) (beforeSignal evs)) @
     (if Signal \<in> set evs then [Bytes (''Shutting down Producer...'' @ [newline])] else []) \<and>
   Outbox (fst (produce lp evs s)) =
     Outbox s @ concat (map (tickSent lp) (beforeSignal evs)) \<and>
   snd (produce lp evs s) = (if Signal \<in> set evs then Returned else Running) \<and>
   producer_main k0 (Some cerr) evs =
     (\<lparr>Console = [], Outbox = []\<rparr>, Fatal (Wrapped ''failed to create producer '' cerr)) \<and>
   \<not> crashed (snd (ConsumeClaim cevs cs)) \<and>
   consumer_main (Some cerr) rs =
     (0, Fatal (Wrapped ''Error creating consumerGroup client '' cerr)) \<and>
   consumer_main None (replicate j None @ Some serr # rs) =
     (j + 1, Panicked (Wrapped ''Error from Consumer '' serr)) \<and>
   consumer_main None (replicate j None) = (j, Running)"
proof -
  have publish: "Result (sendLog lp levelRand k now reply) = Some err \<longrightarrow>
      produce lp [Tick levelRand k now reply] s =
        (s\<lparr>Console := Console s @ [ErrorLine ''Error sending log '' err],
           Outbox := Outbox s @ Sent (sendLog lp levelRand k now reply)\<rparr>, Running)"
    by (simp add: produce_Tick sendLog_failed_prints_nothing del: produce.simps(2))
  have loop: "Console (fst (produce lp evs s)) =
     Console s @ concat (map (tickWrites lp) (beforeSignal evs)) @
     (if Signal \<in> set evs then [Bytes (''Shutting down Producer...'' @ [newline])] else [])"
    "Outbox (fst (produce lp evs s)) =
     Outbox s @ concat (map (tickSent lp) (beforeSignal evs))"
    by (simp_all add: produce_fst)
  have startup: "producer_main k0 (Some cerr) evs =
     (\<lparr>Console = [], Outbox = []\<rparr>, Fatal (Wrapped ''failed to create producer '' cerr))"
    "consumer_main (Some cerr) rs =
     (0, Fatal (Wrapped ''Error creating consumerGroup client '' cerr))"
    by (simp_all add: producer_main_def consumer_main_def)
  have session: "consumer_main None (replicate j None @ Some serr # rs) =
     (j + 1, Panicked (Wrapped ''Error from Consumer '' serr))"
    "consumer_main None (replicate j None) = (j, Running)"
    using consumeLoop_sessions [of j "Some serr # rs" 0] consumeLoop_sessions [of j "[]" 0]
    by (simp_all add: consumer_main_def)
  from publish loop startup session produce_snd [of lp evs s]
    ConsumeClaim_not_crashed [of cevs cs]
  show ?thesis by (intro conjI)
qed

lemma sendLog_broker_error:
  "sendLog \<lparr>appName = ''AuthService''\<rparr> (3 / 4) 7 exampleTime (Inl (BrokerError ''no leader'')) =
     \<lparr>Result = Some (Wrapped ''failed to send message '' (BrokerError ''no leader'')),
      Sent = [\<lparr>Topic = ''raw-logs'', Key = ''AuthService'', Value = exampleRecord,
               MsgTimestamp = exampleTime\<rparr>],
      Printed = []\<rparr>"
  by (simp add: sendLog_def Let_def ToJson_example generateLogEntry_fields exampleRecord_def)

lemma sendLog_delivered:
  "sendLog \<lparr>appName = ''AuthService''\<rparr> (3 / 4) 7 exampleTime (Inr (2, 15)) =
     \<lparr>Result = None,
      Sent = [\<lparr>Topic = ''raw-logs'', Key = ''AuthService'', Value = exampleRecord,
               MsgTimestamp = exampleTime\<rparr>],
      Printed = [Bytes (''[AuthService] Sent lot to partition 2, offset 15: WARN - Connection Pool almost full'' @ [newline])]\<rparr>"
proof -
  have "generateLogEntry \<lparr>appName = ''AuthService''\<rparr> (3 / 4) 7 exampleTime = exampleEntry"
    by (simp add: eval_generate exampleEntry_def)
  then show ?thesis
    using ToJson_example
    by (simp add: sendLog_def Let_def exampleRecord_def exampleEntry_def level_defs
        showInt_def eval_digits)
qed

theorem errors_and_termination_witness:
  "Result (sendLog \<lparr>appName = ''AuthService''\<rparr> (3 / 4) 7 exampleTime
     (Inl (BrokerError ''no leader''))) =
     Some (Wrapped ''failed to send message '' (BrokerError ''no leader'')) \<and>
   produce \<lparr>appName = ''AuthService''\<rparr>
     [Tick (3 / 4) 7 exampleTime (Inl (BrokerError ''no leader''))]
     \<lparr>Console = [], Outbox = []\<rparr> =
   (\<lparr>Console = [ErrorLine ''Error sending log ''
         (Wrapped ''failed to send message '' (BrokerError ''no leader''))],
      Outbox = [\<lparr>Topic = ''raw-logs'', Key = ''AuthService'', Value = exampleRecord,
                 MsgTimestamp = exampleTime\<rparr>]\<rparr>, Running) \<and>
   Console (fst (produce \<lparr>appName = ''AuthService''\<rparr>
     [Tick (3 / 4) 7 exampleTime (Inl (BrokerError ''no leader'')),
      Tick (3 / 4) 7 exampleTime (Inr (2, 15)), Signal,
      Tick (3 / 4) 7 exampleTime (Inr (2, 16))]
     \<lparr>Console = [], Outbox = []\<rparr>)) =
   [ErrorLine ''Error sending log ''
      (Wrapped ''failed to send message '' (BrokerError ''no leader'')),
    Bytes (''[AuthService] Sent lot to partition 2, offset 15: WARN - Connection Pool almost full'' @ [newline]),
    Bytes (''Shutting down Producer...'' @ [newline])] \<and>
   snd (produce \<lparr>appName = ''AuthService''\<rparr>
     [Tick (3 / 4) 7 exampleTime (Inl (BrokerError ''no leader'')),
      Tick (3 / 4) 7 exampleTime (Inr (2, 15)), Signal,
      Tick (3 / 4) 7 exampleTime (Inr (2, 16))]
     \<lparr>Console = [], Outbox = []\<rparr>) = Returned"
  using errors_and_termination [of "\<lparr>appName = ''AuthService''\<rparr>" "3 / 4" 7 exampleTime
      "Inl (BrokerError ''no leader'')"
      "Wrapped ''failed to send message '' (BrokerError ''no leader'')"
      "\<lparr>Console = [], Outbox = []\<rparr>"
      "[Tick (3 / 4) 7 exampleTime (Inl (BrokerError ''no leader'')),
        Tick (3 / 4) 7 exampleTime (Inr (2, 15)), Signal,
        Tick (3 / 4) 7 exampleTime (Inr (2, 16))]"]
  by (simp add: sendLog_broker_error sendLog_delivered tickWrites_Tick
      del: produce.simps)

section \<open>Timestamps that were read are real clock readings\<close>

lemma digitsVal_snoc: "digitsVal (s @ [c]) = digitsVal s * 10 + (of_char c - 48)"
  by (simp add: digitsVal_def)

lemma digitsVal_bound: "list_all isDigit s \<Longrightarrow> digitsVal s < 10 ^ length s"
proof (induction s rule: rev_induct)
  case Nil
  then show ?case by (simp add: digitsVal_def)
next
  case (snoc c s)
  then have "digitsVal s < 10 ^ length s" and "(of_char c :: nat) - 48 \<le> 9"
    by (auto simp: isDigit_def)
  then have "digitsVal s * 10 + (of_char c - 48) < 10 ^ length s * 10"
    by linarith
  then show ?case by (simp add: digitsVal_snoc mult.commute)
qed

lemma parseNanoseconds_bound:
  assumes "list_all isDigit ds"
  shows "parseNanoseconds ds < 1000000000"
proof -
  let ?d = "take 9 ds"
  have len: "length ?d \<le> 9" by simp
  have "list_all isDigit ?d" using assms by (simp add: list_all_iff) (meson in_set_takeD)
  then have "digitsVal ?d < 10 ^ length ?d" by (rule digitsVal_bound)
  then have "digitsVal ?d * 10 ^ (9 - length ?d) < 10 ^ length ?d * 10 ^ (9 - length ?d)"
    by simp
  also have "\<dots> = 10 ^ 9" using len by (simp flip: power_add)
  finally show ?thesis by (simp add: parseNanoseconds_def)
qed

lemma parseUint_Some: "parseUint s lo hi = Some x \<Longrightarrow> lo \<le> x \<and> x \<le> hi"
  by (auto simp: parseUint_def split: if_splits)

lemma parseDateTime_Some:
  assumes "parseDateTime s = Some (y, mo, d, h, mi, sec)"
  shows "1 \<le> mo \<and> mo \<le> 12 \<and> 1 \<le> d \<and> d \<le> daysIn mo (int y) \<and> h < 24 \<and> mi < 60 \<and> sec < 60"
proof -
  from assms obtain
    mo: "parseUint (take 2 (drop 5 s)) 1 12 = Some mo" and
    d: "parseUint (take 2 (drop 8 s)) 1 (daysIn mo (int y)) = Some d" and
    h: "parseUint (take 2 (drop 11 s)) 0 23 = Some h" and
    mi: "parseUint (take 2 (drop 14 s)) 0 59 = Some mi" and
    sec: "parseUint (take 2 (drop 17 s)) 0 59 = Some sec"
    by (auto simp: parseDateTime_def bind_eq_Some_conv split: if_splits)
  from parseUint_Some [OF mo] parseUint_Some [OF d] parseUint_Some [OF h]
    parseUint_Some [OF mi] parseUint_Some [OF sec]
  show ?thesis by simp
qed

lemma take_spanDigits: "take (spanDigits s) s = takeWhile isDigit s"
  unfolding spanDigits_def by (rule takeWhile_eq_take [symmetric])

lemma list_all_takeWhile: "list_all P (takeWhile P xs)"
  by (induction xs) auto

lemma parseFraction_bound: "snd (parseFraction rest) < 1000000000"
proof -
  have "parseNanoseconds (take (spanDigits (tl rest)) (tl rest)) < 1000000000"
    by (rule parseNanoseconds_bound) (simp add: take_spanDigits list_all_takeWhile)
  then show ?thesis by (simp add: parseFraction_def)
qed

lemma parseRFC3339_wellformed:
  assumes "parseRFC3339 s = Some t"
  shows "wellformed t"
proof -
  from assms obtain y mo d h mi sec n ns off where
    dt: "parseDateTime s = Some (y, mo, d, h, mi, sec)" and
    fr: "parseFraction (drop 19 s) = (n, ns)" and
    t: "t = \<lparr>Year = int y, Month = mo, Day = d, Hour = h, Minute = mi, Second = sec,
            Nanosecond = ns, ZoneOffset = off\<rparr>"
    by (auto simp: parseRFC3339_def split: if_splits option.splits prod.splits)
  from parseFraction_bound [of "drop 19 s"] fr have "ns < 1000000000" by simp
  with parseDateTime_Some [OF dt] t show ?thesis by (simp add: wellformed_def)
qed

lemma lenientFraction_bound: "snd (lenientFraction rest) < 1000000000"
proof -
  have "parseNanoseconds (take (spanDigits (tl rest)) (tl rest)) < 1000000000"
    by (rule parseNanoseconds_bound) (simp add: take_spanDigits list_all_takeWhile)
  then show ?thesis by (simp add: lenientFraction_def)
qed

lemma lenientFields_fraction:
  assumes "lenientFields v = Some (mo, d, h, mi, sec, ns, off, rest)"
  shows "ns < 1000000000"
proof -
  from assms obtain v10 where "ns = snd (lenientFraction v10)"
    by (auto simp: lenientFields_def bind_eq_Some_conv split: prod.splits)
  then show ?thesis by (simp add: lenientFraction_bound)
qed

lemma Parse_RFC3339_wellformed:
  assumes "Parse_RFC3339 v = Some t"
  shows "wellformed t"
proof -
  from assms obtain mo d h mi sec ns off rest where
    f: "lenientFields v = Some (mo, d, h, mi, sec, ns, off, rest)" and
    c: "\<not> (mo < 1 \<or> 12 < mo \<or> 24 \<le> h \<or> 60 \<le> mi \<or> 60 \<le> sec \<or> rest \<noteq> [] \<or>
               d < 1 \<or> daysIn mo (int (digitsVal (take 4 v))) < d)" and
    t: "t = \<lparr>Year = int (digitsVal (take 4 v)), Month = mo, Day = d, Hour = h,
              Minute = mi, Second = sec, Nanosecond = ns, ZoneOffset = off\<rparr>"
    by (auto simp: Parse_RFC3339_def split: if_splits option.splits prod.splits)
  from lenientFields_fraction [OF f] c t show ?thesis
    by (simp add: wellformed_def)
qed

lemma parseStrictRFC3339_wellformed:
  "parseStrictRFC3339 s = Some t \<Longrightarrow> wellformed t"
  by (auto simp: parseStrictRFC3339_def split: option.splits
      dest: parseRFC3339_wellformed Parse_RFC3339_wellformed)

lemma wellformed_zeroTime: "wellformed zeroTime"
  by (simp add: wellformed_def zeroTime_def daysIn_def)

lemma storeMember_wellformed:
  assumes "wellformed (Timestamp entry)" and "storeMember key v entry saved = Inr (entry', saved')"
  shows "wellformed (Timestamp entry')"
proof (cases "findField key")
  case None
  with assms show ?thesis by (simp add: storeMember_def)
next
  case (Some f)
  show ?thesis
  proof (cases f)
    case FTimestamp
    with Some assms show ?thesis
      by (auto simp: storeMember_def Time_UnmarshalJSON_def dest: parseStrictRFC3339_wellformed
          split: sum.splits json.splits option.splits)
  qed (use Some assms in \<open>auto simp: storeMember_def split: prod.splits\<close>)
qed

lemma decodeMembers_wellformed:
  "wellformed (Timestamp entry) \<Longrightarrow>
   wellformed (Timestamp (fst (decodeMembers ms entry saved)))"
proof (induction ms arbitrary: entry saved)
  case Nil
  then show ?case by simp
next
  case (Cons m ms)
  obtain rawkey v where m: "m = (rawkey, v)" by (cases m)
  show ?case
  proof (cases "unquote rawkey")
    case None
    with Cons.prems show ?thesis by (simp add: m)
  next
    case (Some key)
    show ?thesis
    proof (cases "storeMember key v entry saved")
      case (Inl err)
      with Some Cons.prems show ?thesis by (simp add: m)
    next
      case (Inr r)
      obtain entry' saved' where r: "r = (entry', saved')" by (cases r)
      from storeMember_wellformed [OF Cons.prems Inr [unfolded r]]
      have "wellformed (Timestamp entry')" .
      from Cons.IH [OF this] Some Inr r show ?thesis by (simp add: m)
    qed
  qed
qed

lemma FromJson_wellformed: "wellformed (Timestamp (fst (FromJson data)))"
  by (auto simp: FromJson_def Unmarshal_def zeroEntry_def wellformed_zeroTime
      intro!: decodeMembers_wellformed split: option.splits json.splits)


section \<open>Rendering\<close>

lemma digit_0: "digit 0 = CHR ''0''"
  by (simp add: digit_def char_of_eq_iff)

lemma appendInt_two_digits:
  assumes "n < 100"
  shows "appendInt (int n) 2 = [digit (n div 10), digit (n mod 10)]"
proof (cases "n < 10")
  case True
  then show ?thesis
    by (simp add: appendInt_def digitsOf_lt10 digit_0 replicate_numeral)
next
  case False
  with assms have "n div 10 < 10" by simp
  with False show ?thesis
    by (simp add: appendInt_def digitsOf_ge10 digitsOf_lt10)
qed

lemma formatClock_digits:
  assumes "wellformed t"
  shows "formatClock t =
     [digit (Hour t div 10), digit (Hour t mod 10), CHR '':'',
      digit (Minute t div 10), digit (Minute t mod 10), CHR '':'',
      digit (Second t div 10), digit (Second t mod 10)]"
proof -
  from assms have "Hour t < 100" "Minute t < 100" "Second t < 100"
    by (simp_all add: wellformed_def)
  then show ?thesis by (simp add: formatClock_def appendInt_two_digits)
qed

lemma color_lookup:
  "(case map_of colors l of Some c \<Rightarrow> c | None \<Rightarrow> reset) =
     (if l = DEBUG then esc # ''[36m'' else if l = INFO then esc # ''[32m''
      else if l = WARN then esc # ''[33m'' else if l = ERROR then esc # ''[31m''
      else if l = FATAL then esc # ''[35m'' else reset)"
  by (simp add: colors_def)

lemma isDigit_digit: "n < 10 \<Longrightarrow> isDigit (digit n)"
  by (simp add: isDigit_def digit_def)

lemma digitsOf_digits: "list_all isDigit (digitsOf n)"
proof (induction n rule: digitsOf.induct)
  case (1 n)
  show ?case
  proof (cases "n < 10")
    case True
    then show ?thesis by (simp add: digitsOf_lt10 isDigit_digit)
  next
    case False
    with 1 show ?thesis by (simp add: digitsOf_ge10 isDigit_digit)
  qed
qed

lemma no_newline_digits: "list_all isDigit s \<Longrightarrow> count_list s newline = 0"
  by (induction s) (auto simp: isDigit_def newline_def)

lemma newline_neq: "CHR ''-'' \<noteq> newline" "CHR ''0'' \<noteq> newline" "CHR '':'' \<noteq> newline"
  by (simp_all add: newline_def)

lemma no_newline_showInt: "count_list (showInt x) newline = 0"
  by (simp add: showInt_def no_newline_digits digitsOf_digits newline_neq)

lemma no_newline_appendInt: "count_list (appendInt x w) newline = 0"
proof -
  have "count_list (replicate m (CHR ''0'')) newline = 0" for m
    by (induction m) (simp_all add: newline_neq)
  then show ?thesis
    by (simp add: appendInt_def Let_def no_newline_digits digitsOf_digits newline_neq)
qed

lemma no_newline_formatClock: "count_list (formatClock t) newline = 0"
  by (simp add: formatClock_def no_newline_appendInt newline_neq)

lemma no_newline_color:
  "count_list (case map_of colors l of Some c \<Rightarrow> c | None \<Rightarrow> reset) newline = 0"
  by (simp add: color_lookup reset_def esc_def newline_def)

lemma displayLog_newlines:
  "count_list (displayLog entry part offs) newline =
     1 + count_list (Application entry @ Level entry @ Message entry) newline"
proof -
  have fixed: "count_list ''['' newline = 0" "count_list ''] ['' newline = 0"
    "count_list ''] '' newline = 0" "count_list reset newline = 0"
    "count_list '' (p:'' newline = 0" "count_list '', o:'' newline = 0"
    "count_list '')'' newline = 0"
    by (simp_all add: newline_def reset_def esc_def)
  show ?thesis
    unfolding displayLog_def Let_def count_list_append
    by (simp only: fixed no_newline_color no_newline_formatClock no_newline_showInt) simp
qed

text \<open>
  C7, as stated, fails: a record whose message holds a newline (written with its
  escape in the JSON text) deserializes without error, and what the consumer writes
  for it is two lines.
\<close>

theorem two_lines_counterexample:
  "FromJson twoLineRecord =
     (\<lparr>Timestamp = exampleTime, Application = ''AuthService'', Level = INFO,
       Message = ''line one'' @ [newline] @ ''line two''\<rparr>, None) \<and>
   proccessLogMessage \<lparr>MsgValue = twoLineRecord, Partition = 0, Offset = 7\<rparr> =
     Bytes (esc # ''[32m[13:05:09] [AuthService] [INFO] line one'' @ [newline] @
            ''line two'' @ esc # ''[0m (p:0, o:7)'' @ [newline]) \<and>
   count_list
     (esc # ''[32m[13:05:09] [AuthService] [INFO] line one'' @ [newline] @
      ''line two'' @ esc # ''[0m (p:0, o:7)'' @ [newline]) newline = 2"
proof -
  have parsed: "FromJson twoLineRecord =
     (\<lparr>Timestamp = exampleTime, Application = ''AuthService'', Level = INFO,
       Message = ''line one'' @ [newline] @ ''line two''\<rparr>, None)"
    by (simp add: twoLineRecord_def exampleTime_def level_defs newline_def eval_unmarshal)
  then have "proccessLogMessage \<lparr>MsgValue = twoLineRecord, Partition = 0, Offset = 7\<rparr> =
     Bytes (esc # ''[32m[13:05:09] [AuthService] [INFO] line one'' @ [newline] @
            ''line two'' @ esc # ''[0m (p:0, o:7)'' @ [newline])"
    by (simp add: proccessLogMessage_def exampleTime_def eval_display)
  with parsed show ?thesis by (simp add: newline_def esc_def)
qed

text \<open>
  C7, amended. An entry is rendered as the colour of its level,
  \<open>[HH:MM:SS] [application] [LEVEL] message\<close> with two digits for each of the hour,
  the minute and the second, the reset code, \<open>(p:<partition>, o:<offset>)\<close> and a
  newline. The colour is cyan for DEBUG, green for INFO, yellow for WARN, red for
  ERROR and magenta for FATAL; for any other level no colour is set (the code
  written is the reset code). The number of newlines written is one more than the
  number of newlines in the application, the level and the message: the output is
  exactly one line when these hold none. For a record that deserializes without
  error this is what the consumer writes, and the timestamp read is a real clock
  reading.
\<close>

theorem displayLog_line:
  "(wellformed (Timestamp entry) \<longrightarrow>
      displayLog entry part offs =
        (if Level entry = DEBUG then esc # ''[36m''
         else if Level entry = INFO then esc # ''[32m''
         else if Level entry = WARN then esc # ''[33m''
         else if Level entry = ERROR then esc # ''[31m''
         else if Level entry = FATAL then esc # ''[35m''
         else esc # ''[0m'') @
        ''['' @
        [digit (Hour (Timestamp entry) div 10), digit (Hour (Timestamp entry) mod 10)] @
        '':'' @
        [digit (Minute (Timestamp entry) div 10), digit (Minute (Timestamp entry) mod 10)] @
        '':'' @
        [digit (Second (Timestamp entry) div 10), digit (Second (Timestamp entry) mod 10)] @
        ''] ['' @ Application entry @ ''] ['' @ Level entry @ ''] '' @ Message entry @
        esc # ''[0m'' @
        '' (p:'' @ showInt (sint part) @ '', o:'' @ showInt (sint offs) @ '')'' @
        [newline]) \<and>
   count_list (displayLog entry part offs) newline =
     1 + count_list (Application entry @ Level entry @ Message entry) newline \<and>
   (FromJson (MsgValue message) = (entry, None) \<longrightarrow>
      wellformed (Timestamp entry) \<and>
      proccessLogMessage message =
        Bytes (displayLog entry (Partition message) (Offset message)))"
proof -
  have form: "displayLog entry part offs =
        (if Level entry = DEBUG then esc # ''[36m''
         else if Level entry = INFO then esc # ''[32m''
         else if Level entry = WARN then esc # ''[33m''
         else if Level entry = ERROR then esc # ''[31m''
         else if Level entry = FATAL then esc # ''[35m''
         else esc # ''[0m'') @
        ''['' @
        [digit (Hour (Timestamp entry) div 10), digit (Hour (Timestamp entry) mod 10)] @
        '':'' @
        [digit (Minute (Timestamp entry) div 10), digit (Minute (Timestamp entry) mod 10)] @
        '':'' @
        [digit (Second (Timestamp entry) div 10), digit (Second (Timestamp entry) mod 10)] @
        ''] ['' @ Application entry @ ''] ['' @ Level entry @ ''] '' @ Message entry @
        esc # ''[0m'' @
        '' (p:'' @ showInt (sint part) @ '', o:'' @ showInt (sint offs) @ '')'' @
        [newline]"
    if wf: "wellformed (Timestamp entry)"
    by (simp add: displayLog_def color_lookup formatClock_digits [OF wf] reset_def)
  have link: "wellformed (Timestamp entry) \<and>
      proccessLogMessage message =
        Bytes (displayLog entry (Partition message) (Offset message))"
    if "FromJson (MsgValue message) = (entry, None)"
    using that FromJson_wellformed [of "MsgValue message"]
    by (simp add: proccessLogMessage_def)
  from form link displayLog_newlines [of entry part offs] show ?thesis by blast
qed

lemma FromJson_example: "FromJson exampleRecord = (exampleEntry, None)"
  by (simp add: exampleRecord_def exampleEntry_def exampleTime_def level_defs eval_unmarshal)

lemma wellformed_exampleTime: "wellformed exampleTime"
  by (simp add: wellformed_def exampleTime_def daysIn_def isLeap_def)

theorem displayLog_line_witness:
  "wellformed (Timestamp exampleEntry) \<and>
   FromJson (MsgValue \<lparr>MsgValue = exampleRecord, Partition = 2, Offset = 15\<rparr>) =
     (exampleEntry, None) \<and>
   proccessLogMessage \<lparr>MsgValue = exampleRecord, Partition = 2, Offset = 15\<rparr> =
     Bytes (displayLog exampleEntry 2 15) \<and>
   displayLog exampleEntry 2 15 =
     esc # ''[33m[13:05:09] [AuthService] [WARN] Connection Pool almost full'' @
     esc # ''[0m (p:2, o:15)'' @ [newline] \<and>
   count_list (displayLog exampleEntry 2 15) newline = 1"
proof -
  note line = displayLog_line [of exampleEntry 2 15
      "\<lparr>MsgValue = exampleRecord, Partition = 2, Offset = 15\<rparr>"]
  have wf: "wellformed (Timestamp exampleEntry)"
    by (simp add: exampleEntry_def wellformed_exampleTime)
  have parsed: "FromJson (MsgValue \<lparr>MsgValue = exampleRecord, Partition = 2, Offset = 15\<rparr>) =
     (exampleEntry, None)"
    by (simp add: FromJson_example)
  have none: "count_list (Application exampleEntry @ Level exampleEntry @ Message exampleEntry)
      newline = 0"
    by (simp add: exampleEntry_def level_defs newline_def)
  from line parsed
  have written: "proccessLogMessage \<lparr>MsgValue = exampleRecord, Partition = 2, Offset = 15\<rparr> =
     Bytes (displayLog exampleEntry 2 15)"
    by simp
  from line wf have "displayLog exampleEntry 2 15 =
        (if Level exampleEntry = DEBUG then esc # ''[36m''
         else if Level exampleEntry = INFO then esc # ''[32m''
         else if Level exampleEntry = WARN then esc # ''[33m''
         else if Level exampleEntry = ERROR then esc # ''[31m''
         else if Level exampleEntry = FATAL then esc # ''[35m''
         else esc # ''[0m'') @
        ''['' @
        [digit (Hour (Timestamp exampleEntry) div 10),
         digit (Hour (Timestamp exampleEntry) mod 10)] @
        '':'' @
        [digit (Minute (Timestamp exampleEntry) div 10),
         digit (Minute (Timestamp exampleEntry) mod 10)] @
        '':'' @
        [digit (Second (Timestamp exampleEntry) div 10),
         digit (Second (Timestamp exampleEntry) mod 10)] @
        ''] ['' @ Application exampleEntry @ ''] ['' @ Level exampleEntry @ ''] '' @
        Message exampleEntry @ esc # ''[0m'' @
        '' (p:'' @ showInt (sint (2 :: 32 word)) @ '', o:'' @
        showInt (sint (15 :: 64 word)) @ '')'' @ [newline]"
    by blast
  then have form: "displayLog exampleEntry 2 15 =
     esc # ''[33m[13:05:09] [AuthService] [WARN] Connection Pool almost full'' @
     esc # ''[0m (p:2, o:15)'' @ [newline]"
    by (simp add: exampleEntry_def exampleTime_def level_defs showInt_def eval_digits)
  from line none have count: "count_list (displayLog exampleEntry 2 15) newline = 1"
    by simp
  from wf parsed written form count show ?thesis by (intro conjI)
qed

lemma ConsumeClaim_received:
  "ConsumeClaim (map (\<lambda>m. Received (Some m)) ms @ evs) s =
     ConsumeClaim evs
       (s\<lparr>Stdout := Stdout s @ map proccessLogMessage ms, Marked := Marked s @ ms\<rparr>)"
  by (induction ms arbitrary: s) simp_all

text \<open>
  C8. When a received record fails to deserialize, the consumer writes the error
  to the console, marks the record as processed and goes on: with records before
  and after it, the console holds the lines of the records before, the error line,
  and the lines of the records after, every one of the records is marked, the failed
  one among them, and the loop is still running, or has returned if the end of
  the session was observed; it has not crashed.
\<close>

theorem malformed_record_skipped:
  assumes "FromJson (MsgValue message) = (entry, Some err)"
  shows "proccessLogMessage message = ErrorLine ''Error parsing the log message '' err \<and>
    ConsumeClaim
      (map (\<lambda>m. Received (Some m)) before @ Received (Some message) #
       map (\<lambda>m. Received (Some m)) after) s =
      (s\<lparr>Stdout := Stdout s @ map proccessLogMessage before @
            [ErrorLine ''Error parsing the log message '' err] @
            map proccessLogMessage after,
         Marked := Marked s @ before @ [message] @ after\<rparr>, Running) \<and>
    ConsumeClaim
      (map (\<lambda>m. Received (Some m)) before @ Received (Some message) #
       map (\<lambda>m. Received (Some m)) after @ Done # rest) s =
      (s\<lparr>Stdout := Stdout s @ map proccessLogMessage before @
            [ErrorLine ''Error parsing the log message '' err] @
            map proccessLogMessage after,
         Marked := Marked s @ before @ [message] @ after\<rparr>, Returned)"
proof -
  have line: "proccessLogMessage message = ErrorLine ''Error parsing the log message '' err"
    using assms by (simp add: proccessLogMessage_def)
  have all: "map (\<lambda>m. Received (Some m)) before @ Received (Some message) #
       map (\<lambda>m. Received (Some m)) after @ evs =
     map (\<lambda>m. Received (Some m)) (before @ [message] @ after) @ evs" for evs
    by simp
  have run: "ConsumeClaim
      (map (\<lambda>m. Received (Some m)) before @ Received (Some message) #
       map (\<lambda>m. Received (Some m)) after @ evs) s =
     ConsumeClaim evs
       (s\<lparr>Stdout := Stdout s @ map proccessLogMessage before @
            [ErrorLine ''Error parsing the log message '' err] @
            map proccessLogMessage after,
          Marked := Marked s @ before @ [message] @ after\<rparr>)" for evs
    unfolding all ConsumeClaim_received by (simp add: line)
  from run [of "[]"] run [of "Done # rest"] line show ?thesis by simp
qed

lemma FromJson_truncated_example:
  \<open>FromJson ''{"level":'' = (zeroEntry, Some SyntaxError)\<close>
  by (simp add: eval_unmarshal)

theorem malformed_record_skipped_witness:
  \<open>FromJson (MsgValue \<lparr>MsgValue = ''{"level":'', Partition = 0, Offset = 41\<rparr>) =
     (zeroEntry, Some SyntaxError) \<and>
   ConsumeClaim
     [Received (Some \<lparr>MsgValue = exampleRecord, Partition = 0, Offset = 40\<rparr>),
      Received (Some \<lparr>MsgValue = ''{"level":'', Partition = 0, Offset = 41\<rparr>),
      Received (Some \<lparr>MsgValue = exampleRecord, Partition = 0, Offset = 42\<rparr>)]
     \<lparr>Stdout = [], Marked = []\<rparr> =
   (\<lparr>Stdout =
       [Bytes (esc # ''[33m[13:05:09] [AuthService] [WARN] Connection Pool almost full'' @
               esc # ''[0m (p:0, o:40)'' @ [newline]),
        ErrorLine ''Error parsing the log message '' SyntaxError,
        Bytes (esc # ''[33m[13:05:09] [AuthService] [WARN] Connection Pool almost full'' @
               esc # ''[0m (p:0, o:42)'' @ [newline])],
     Marked =
       [\<lparr>MsgValue = exampleRecord, Partition = 0, Offset = 40\<rparr>,
        \<lparr>MsgValue = ''{"level":'', Partition = 0, Offset = 41\<rparr>,
        \<lparr>MsgValue = exampleRecord, Partition = 0, Offset = 42\<rparr>]\<rparr>, Running)\<close>
proof -
  have bad: \<open>FromJson (MsgValue \<lparr>MsgValue = ''{"level":'', Partition = 0, Offset = 41\<rparr>) =
     (zeroEntry, Some SyntaxError)\<close>
    by (simp add: FromJson_truncated_example)
  have good: "proccessLogMessage \<lparr>MsgValue = exampleRecord, Partition = 0, Offset = 40\<rparr> =
     Bytes (esc # ''[33m[13:05:09] [AuthService] [WARN] Connection Pool almost full'' @
            esc # ''[0m (p:0, o:40)'' @ [newline])"
    "proccessLogMessage \<lparr>MsgValue = exampleRecord, Partition = 0, Offset = 42\<rparr> =
     Bytes (esc # ''[33m[13:05:09] [AuthService] [WARN] Connection Pool almost full'' @
            esc # ''[0m (p:0, o:42)'' @ [newline])"
    by (simp_all add: proccessLogMessage_def FromJson_example exampleEntry_def exampleTime_def
        eval_display)
  from malformed_record_skipped [OF bad,
      of "[\<lparr>MsgValue = exampleRecord, Partition = 0, Offset = 40\<rparr>]"
         "[\<lparr>MsgValue = exampleRecord, Partition = 0, Offset = 42\<rparr>]"
         "\<lparr>Stdout = [], Marked = []\<rparr>"] bad good
  show ?thesis by (simp del: ConsumeClaim.simps)
qed

lemma ConsumeClaim_pulled:
  "fst (ConsumeClaim evs s) =
     s\<lparr>Stdout := Stdout s @ map proccessLogMessage (pulled evs),
       Marked := Marked s @ pulled evs\<rparr>"
  by (induction evs s rule: ConsumeClaim.induct) simp_all

lemma ConsumeClaim_until_Done:
  "ConsumeClaim (map (\<lambda>m. Received (Some m)) ms @ Done # rest) s =
     (s\<lparr>Stdout := Stdout s @ map proccessLogMessage ms, Marked := Marked s @ ms\<rparr>, Returned)"
  by (induction ms arbitrary: s) simp_all

text \<open>
  C9. Every record the loop has pulled from the claim is rendered and marked before
  the loop looks at the session's context again: whatever the order of the events,
  the records marked and the lines written are those of all the records pulled; and
  when the end of the session is observed after some records, all of them have been
  rendered and marked by the time the loop returns.
\<close>

theorem pulled_records_processed:
  "Marked (fst (ConsumeClaim evs s)) = Marked s @ pulled evs \<and>
   Stdout (fst (ConsumeClaim evs s)) = Stdout s @ map proccessLogMessage (pulled evs) \<and>
   ConsumeClaim (map (\<lambda>m. Received (Some m)) ms @ Done # rest) s =
     (s\<lparr>Stdout := Stdout s @ map proccessLogMessage ms, Marked := Marked s @ ms\<rparr>, Returned)"
  by (simp add: ConsumeClaim_pulled ConsumeClaim_until_Done)

theorem pulled_records_processed_witness:
  "ConsumeClaim
     [Received (Some \<lparr>MsgValue = exampleRecord, Partition = 1, Offset = 7\<rparr>), Done,
      Received (Some \<lparr>MsgValue = exampleRecord, Partition = 1, Offset = 8\<rparr>)]
     \<lparr>Stdout = [], Marked = []\<rparr> =
   (\<lparr>Stdout =
       [Bytes (esc # ''[33m[13:05:09] [AuthService] [WARN] Connection Pool almost full'' @
               esc # ''[0m (p:1, o:7)'' @ [newline])],
     Marked = [\<lparr>MsgValue = exampleRecord, Partition = 1, Offset = 7\<rparr>]\<rparr>, Returned)"
proof -
  have good: "proccessLogMessage \<lparr>MsgValue = exampleRecord, Partition = 1, Offset = 7\<rparr> =
     Bytes (esc # ''[33m[13:05:09] [AuthService] [WARN] Connection Pool almost full'' @
            esc # ''[0m (p:1, o:7)'' @ [newline])"
    by (simp add: proccessLogMessage_def FromJson_example exampleEntry_def exampleTime_def
        eval_display)
  from pulled_records_processed [of
      "[Received (Some \<lparr>MsgValue = exampleRecord, Partition = 1, Offset = 7\<rparr>), Done,
        Received (Some \<lparr>MsgValue = exampleRecord, Partition = 1, Offset = 8\<rparr>)]"
      "\<lparr>Stdout = [], Marked = []\<rparr>"
      "[\<lparr>MsgValue = exampleRecord, Partition = 1, Offset = 7\<rparr>]"
      "[Received (Some \<lparr>MsgValue = exampleRecord, Partition = 1, Offset = 8\<rparr>)]"] good
  show ?thesis by simp
qed




section \<open>UTF-8: a valid encoding decodes to the rune it encodes\<close>

lemma split2:
  fixes x y :: nat
  assumes "y < 64"
  shows "(x * 64 + y) div 64 = x" "(x * 64 + y) mod 64 = y"
  using assms by simp_all

lemma split3: 
  fixes x y z :: nat
  assumes "y < 64" "z < 64"
  shows "(x * 4096 + y * 64 + z) div 4096 = x" "(x * 4096 + y * 64 + z) div 64 mod 64 = y"
    "(x * 4096 + y * 64 + z) mod 64 = z"
proof -
  have e: "x * 4096 + y * 64 + z = (x * 64 + y) * 64 + z" by simp
  have low: "y * 64 + z < 4096" using assms by simp
  show "(x * 4096 + y * 64 + z) div 4096 = x"
    using low by (simp add: add.assoc)
  have "(x * 4096 + y * 64 + z) div 64 = x * 64 + y"
    by (subst e) (rule split2(1) [OF assms(2)])
  then show "(x * 4096 + y * 64 + z) div 64 mod 64 = y"
    by (simp only: split2(2) [OF assms(1)])
  show "(x * 4096 + y * 64 + z) mod 64 = z"
    by (subst e) (rule split2(2) [OF assms(2)])
qed

lemma split4:
  fixes x y z u :: nat
  assumes "y < 64" "z < 64" "u < 64"
  shows "(x * 262144 + y * 4096 + z * 64 + u) div 262144 = x"
    "(x * 262144 + y * 4096 + z * 64 + u) div 4096 mod 64 = y"
    "(x * 262144 + y * 4096 + z * 64 + u) div 64 mod 64 = z"
    "(x * 262144 + y * 4096 + z * 64 + u) mod 64 = u"
proof -
  have e1: "x * 262144 + y * 4096 + z * 64 + u = (x * 64 + y) * 4096 + z * 64 + u" by simp
  have e2: "x * 262144 + y * 4096 + z * 64 + u = (x * 4096 + y * 64 + z) * 64 + u" by simp
  have low: "y * 4096 + z * 64 + u < 262144" using assms by simp
  show "(x * 262144 + y * 4096 + z * 64 + u) div 262144 = x"
    using low by (simp add: add.assoc)
  have "(x * 262144 + y * 4096 + z * 64 + u) div 4096 = x * 64 + y"
    by (subst e1) (rule split3(1) [OF assms(2,3)])
  then show "(x * 262144 + y * 4096 + z * 64 + u) div 4096 mod 64 = y"
    by (simp only: split2(2) [OF assms(1)])
  have "(x * 262144 + y * 4096 + z * 64 + u) div 64 = x * 4096 + y * 64 + z"
    by (subst e2) (rule split2(1) [OF assms(3)])
  then show "(x * 262144 + y * 4096 + z * 64 + u) div 64 mod 64 = z"
    by (simp only: split3(3) [OF assms(1,2)])
  show "(x * 262144 + y * 4096 + z * 64 + u) mod 64 = u"
    by (subst e2) (rule split2(2) [OF assms(3)])
qed

lemma cont_iff: "cont c \<longleftrightarrow> 128 \<le> (of_char c :: nat) \<and> (of_char c :: nat) < 192"
  by (auto simp: cont_def)

lemma char_of_offset:
  fixes b :: nat
  shows "k \<le> of_char c \<Longrightarrow> char_of (k + (of_char c - k) :: nat) = c"
  by simp

text \<open>What a successful decoding says about the bytes.\<close>

lemma DecodeRune_valid:
  assumes dec: "DecodeRune (c # cs) = (r, w)" and ok: "\<not> (r = RuneError \<and> w = 1)"
    and high: "128 \<le> (of_char c :: nat)"
  shows "EncodeRune r = c # take (w - 1) cs \<and> w - 1 \<le> length cs \<and> 2 \<le> w \<and>
    (\<forall>b\<in>set (take (w - 1) cs). 128 \<le> (of_char b :: nat)) \<and>
    (\<forall>ys. DecodeRune (c # take (w - 1) cs @ ys) = (r, w))"
proof -
  let ?b0 = "of_char c :: nat"
  consider (two) "0xC2 \<le> ?b0" "?b0 \<le> 0xDF" | (three) "0xE0 \<le> ?b0" "?b0 \<le> 0xEF"
    | (four) "0xF0 \<le> ?b0" "?b0 \<le> 0xF4" | (bad) "?b0 < 0xC2 \<or> 0xF4 < ?b0"
    by linarith
  then show ?thesis
  proof cases
    case two
    with dec ok high obtain c1 cs' where cs: "cs = c1 # cs'" and c1: "cont c1"
      and r: "r = (?b0 - 0xC0) * 64 + (of_char c1 - 0x80)" and w: "w = 2"
      by (auto simp: Let_def RuneError_def split: list.splits if_splits)
    let ?y = "of_char c1 - 128 :: nat"
    have y: "?y < 64" using c1 by (auto simp: cont_iff)
    have rb: "128 \<le> r" "r \<le> 0x7FF" using two y unfolding r by simp_all
    have enc: "EncodeRune r = [char_of (0xC0 + r div 64), char_of (0x80 + r mod 64)]"
      using rb by (simp add: EncodeRune_def)
    have dm: "r div 64 = ?b0 - 0xC0" "r mod 64 = ?y"
      unfolding r using y by (simp_all add: split2)
    have "EncodeRune r = [c, c1]"
      unfolding enc dm using two c1 by (simp add: cont_iff)
    moreover have "DecodeRune (c # c1 # ys) = (r, w)" for ys
      using two c1 r w by (simp add: Let_def)
    ultimately show ?thesis using cs w c1 by (simp add: cont_iff)
  next
    case three
    with dec ok high obtain c1 c2 cs' where cs: "cs = c1 # c2 # cs'"
      and c1: "second_ok ?b0 (of_char c1)" and c2: "cont c2"
      and r: "r = (?b0 - 0xE0) * 4096 + (of_char c1 - 0x80) * 64 + (of_char c2 - 0x80)"
      and w: "w = 3"
      by (auto simp: Let_def RuneError_def split: list.splits if_splits)
    let ?y = "of_char c1 - 128 :: nat" and ?z = "of_char c2 - 128 :: nat"
    have c1': "128 \<le> (of_char c1 :: nat)" "(of_char c1 :: nat) < 192"
      using c1 by (auto simp: second_ok_def split: if_splits)
    have y: "?y < 64" and z: "?z < 64" using c1' c2 by (auto simp: cont_iff)
    have lo: "0x7FF < r"
    proof (cases "?b0 = 0xE0")
      case True
      with c1 have "0xA0 \<le> (of_char c1 :: nat)" by (simp add: second_ok_def)
      then show ?thesis unfolding r by simp
    next
      case False
      with three have "1 \<le> ?b0 - 0xE0" by simp
      then show ?thesis unfolding r by simp
    qed
    have hi: "r \<le> 0xFFFF" using three y z unfolding r by simp
    have nosur: "\<not> (0xD800 \<le> r \<and> r \<le> 0xDFFF)"
    proof (cases "?b0 = 0xED")
      case True
      with c1 have "(of_char c1 :: nat) \<le> 0x9F" by (simp add: second_ok_def)
      with True z show ?thesis unfolding r by simp
    next
      case False
      then consider "?b0 \<le> 0xEC" | "0xEE \<le> ?b0" by linarith
      then show ?thesis
      proof cases
        case 1
        with y z show ?thesis unfolding r by simp
      next
        case 2
        then have "14 \<le> ?b0 - 0xE0" by simp
        then have "14 * 4096 \<le> (?b0 - 0xE0) * 4096" by (rule mult_le_mono1)
        then show ?thesis unfolding r by linarith
      qed
    qed
    have enc: "EncodeRune r = [char_of (0xE0 + r div 4096), char_of (0x80 + r div 64 mod 64),
         char_of (0x80 + r mod 64)]"
      using lo hi nosur by (auto simp: EncodeRune_def)
    have dm: "r div 4096 = ?b0 - 0xE0" "r div 64 mod 64 = ?y" "r mod 64 = ?z"
      unfolding r using y z by (simp_all only: split3)
    have "EncodeRune r = [c, c1, c2]"
      unfolding enc dm using three c1' c2 by (simp add: cont_iff)
    moreover have "DecodeRune (c # c1 # c2 # ys) = (r, w)" for ys
      using three c1 c2 r w by (simp add: Let_def)
    ultimately show ?thesis using cs w c1' c2 by (simp add: cont_iff)
  next
    case four
    with dec ok high obtain c1 c2 c3 cs' where cs: "cs = c1 # c2 # c3 # cs'"
      and c1: "second_ok ?b0 (of_char c1)" and c2: "cont c2" and c3: "cont c3"
      and r: "r = (?b0 - 0xF0) * 262144 + (of_char c1 - 0x80) * 4096 +
                (of_char c2 - 0x80) * 64 + (of_char c3 - 0x80)"
      and w: "w = 4"
      by (auto simp: Let_def RuneError_def split: list.splits if_splits)
    let ?y = "of_char c1 - 128 :: nat" and ?z = "of_char c2 - 128 :: nat"
      and ?u = "of_char c3 - 128 :: nat"
    have c1': "128 \<le> (of_char c1 :: nat)" "(of_char c1 :: nat) < 192"
      using c1 by (auto simp: second_ok_def split: if_splits)
    have y: "?y < 64" and z: "?z < 64" and u: "?u < 64" using c1' c2 c3 by (auto simp: cont_iff)
    have lo: "0xFFFF < r"
    proof (cases "?b0 = 0xF0")
      case True
      with c1 have "0x90 \<le> (of_char c1 :: nat)" by (simp add: second_ok_def)
      then show ?thesis unfolding r by simp
    next
      case False
      with four have "1 \<le> ?b0 - 0xF0" by simp
      then show ?thesis unfolding r by simp
    qed
    have hi: "r \<le> 0x10FFFF"
    proof (cases "?b0 = 0xF4")
      case True
      with c1 have "(of_char c1 :: nat) \<le> 0x8F" by (simp add: second_ok_def)
      with True z u show ?thesis unfolding r by simp
    next
      case False
      with four have "?b0 \<le> 0xF3" by simp
      with y z u show ?thesis unfolding r by simp
    qed
    have enc: "EncodeRune r = [char_of (0xF0 + r div 262144), char_of (0x80 + r div 4096 mod 64),
         char_of (0x80 + r div 64 mod 64), char_of (0x80 + r mod 64)]"
      using lo hi by (auto simp: EncodeRune_def)
    have dm: "r div 262144 = ?b0 - 0xF0" "r div 4096 mod 64 = ?y" "r div 64 mod 64 = ?z"
      "r mod 64 = ?u"
      unfolding r using y z u by (simp_all only: split4)
    have "EncodeRune r = [c, c1, c2, c3]"
      unfolding enc dm using four c1' c2 c3 by (simp add: cont_iff)
    moreover have "DecodeRune (c # c1 # c2 # c3 # ys) = (r, w)" for ys
      using four c1 c2 c3 r w by (simp add: Let_def)
    ultimately show ?thesis using cs w c1' c2 c3 by (simp add: cont_iff)
  next
    case bad
    with dec ok high show ?thesis by (auto simp: Let_def)
  qed
qed


section \<open>String literals: what is written is read back\<close>

text \<open>A property of the numbers below a bound, checked number by number.\<close>

lemma below_upt: "(\<forall>i<n. P i) \<longleftrightarrow> list_all P [0..<n]"
  by (auto simp: list_all_iff)

lemma hex_digit:
  assumes "n < 16"
  shows "isHexDigit (hex n) \<and> hexVal (hex n) = n"
proof -
  have "\<forall>k<16. isHexDigit (hex k) \<and> hexVal (hex k) = k"
    unfolding below_upt
    by (simp add: upt_rec hex_def isHexDigit_def isDigit_def hexVal_def)
  with assms show ?thesis by blast
qed

lemma scanString_quote: "scanString (quote # rest) = Some 0"
  by simp

text \<open>A byte that the scanner passes over inside a string literal.\<close>

lemma scanString_plain_char:
  assumes "c \<noteq> quote" "c \<noteq> backslash" "32 \<le> (of_char c :: nat)"
  shows "scanString (c # X) = map_option Suc (scanString X)"
  using assms by simp

lemma scanString_high:
  "\<forall>b\<in>set xs. 128 \<le> (of_char b :: nat) \<Longrightarrow>
   scanString (xs @ X) = map_option (\<lambda>n. n + length xs) (scanString X)"
proof (induction xs)
  case Nil
  then show ?case by (simp add: option.map_ident)
next
  case (Cons b xs)
  then have b: "128 \<le> (of_char b :: nat)" by simp
  then have "b \<noteq> quote" "b \<noteq> backslash" by (auto simp: quote_def backslash_def)
  with b have "scanString (b # xs @ X) = map_option Suc (scanString (xs @ X))"
    by (intro scanString_plain_char) simp_all
  with Cons show ?case by (simp add: option.map_comp comp_def)
qed

lemma scanString_escapeASCII:
  assumes "(of_char c :: nat) < 128"
  shows "scanString (escapeASCII c @ X) =
     map_option (\<lambda>n. n + length (escapeASCII c)) (scanString X)"
proof (cases "htmlSafe c")
  case True
  then show ?thesis
    by (simp add: escapeASCII_def htmlSafe_def comp_def)
next
  case False
  from assms have "of_char c div 16 < (16::nat)" "of_char c mod 16 < (16::nat)" by simp_all
  then have hx: "isHexDigit (hex (of_char c div 16))" "isHexDigit (hex (of_char c mod 16))"
    by (simp_all add: hex_digit)
  have zero: "isHexDigit (CHR ''0'')" by (simp add: isHexDigit_def isDigit_def)
  have six: "(\<lambda>n. Suc (Suc (Suc (Suc (Suc (Suc n)))))) = (\<lambda>n::nat. n + 6)"
    by (simp add: fun_eq_iff)
  from False hx zero show ?thesis
    by (simp add: escapeASCII_def quote_def backslash_def comp_def six)
qed


lemma hex_8_9: "r = 0x2028 \<or> r = 0x2029 \<Longrightarrow> isHexDigit (hex (r mod 16)) \<and> hexVal (hex (r mod 16)) = r mod 16"
  by (rule hex_digit) simp

text \<open>The four ways \<open>encodeString\<close> treats the head of a string.\<close>

lemma encodeString_ascii:
  "(of_char c :: nat) < 128 \<Longrightarrow> encodeString (c # cs) = escapeASCII c @ encodeString cs"
  by simp

lemma encodeString_invalid:
  "128 \<le> (of_char c :: nat) \<Longrightarrow> DecodeRune (c # cs) = (RuneError, 1) \<Longrightarrow>
   encodeString (c # cs) = backslash # ''ufffd'' @ encodeString cs"
  by (simp del: DecodeRune.simps)

lemma encodeString_separator:
  "128 \<le> (of_char c :: nat) \<Longrightarrow> DecodeRune (c # cs) = (r, w) \<Longrightarrow>
   r = 0x2028 \<or> r = 0x2029 \<Longrightarrow>
   encodeString (c # cs) =
     backslash # ''u202'' @ [hex (r mod 16)] @ encodeString (drop (w - 1) cs)"
  by (auto simp: RuneError_def simp del: DecodeRune.simps)

lemma encodeString_rune:
  "128 \<le> (of_char c :: nat) \<Longrightarrow> DecodeRune (c # cs) = (r, w) \<Longrightarrow>
   \<not> (r = RuneError \<and> w = 1) \<Longrightarrow> r \<noteq> 0x2028 \<Longrightarrow> r \<noteq> 0x2029 \<Longrightarrow>
   encodeString (c # cs) = c # take (w - 1) cs @ encodeString (drop (w - 1) cs)"
  by (simp del: DecodeRune.simps)

text \<open>The scanner reads the body of a marshalled string up to the closing quote,
  whatever the bytes of the string are.\<close>

lemma scanString_encodeString:
  "scanString (encodeString s @ quote # rest) = Some (length (encodeString s))"
proof (induction s rule: length_induct)
  case (1 s)
  show ?case
  proof (cases s)
    case Nil
    then show ?thesis by simp
  next
    case (Cons c cs)
    have IH: "scanString (encodeString t @ quote # rest) = Some (length (encodeString t))"
      if "length t \<le> length cs" for t
      using 1 that by (simp add: Cons)
    show ?thesis
    proof (cases "(of_char c :: nat) < 128")
      case True
      show ?thesis
        unfolding Cons encodeString_ascii [OF True] append_assoc scanString_escapeASCII [OF True]
        by (simp add: IH)
    next
      case False
      then have high: "128 \<le> (of_char c :: nat)" by simp
      obtain r w where dec: "DecodeRune (c # cs) = (r, w)" by (cases "DecodeRune (c # cs)")
      show ?thesis
      proof (cases "r = RuneError \<and> w = 1")
        case True
        have hx: "isHexDigit (CHR ''f'')" "isHexDigit (CHR ''d'')"
          by (simp_all add: isHexDigit_def isDigit_def)
        have "scanString (backslash # ''ufffd'' @ X) = map_option (\<lambda>n. n + 6) (scanString X)" for X
          using hx by (simp add: quote_def backslash_def)
        then show ?thesis
          unfolding Cons using encodeString_invalid [OF high] dec True
          by (simp add: IH del: scanString.simps encodeString.simps)
      next
        case valid: False
        note v = DecodeRune_valid [OF dec valid high]
        have shorter: "length (drop (w - 1) cs) \<le> length cs" by simp
        show ?thesis
        proof (cases "r = 0x2028 \<or> r = 0x2029")
          case True
          have hx: "isHexDigit (CHR ''2'')" "isHexDigit (CHR ''0'')"
            by (simp_all add: isHexDigit_def isDigit_def)
          have "scanString (backslash # ''u202'' @ [hex (r mod 16)] @ X) =
              map_option (\<lambda>n. n + 6) (scanString X)" for X
            using hx hex_8_9 [OF True] by (simp add: quote_def backslash_def)
          then show ?thesis
            unfolding Cons encodeString_separator [OF high dec True]
            by (simp add: IH del: scanString.simps encodeString.simps)
        next
          case other: False
          have hb: "\<forall>b\<in>set (c # take (w - 1) cs). 128 \<le> (of_char b :: nat)"
            using v high by simp
          have "scanString ((c # take (w - 1) cs) @ X) =
              map_option (\<lambda>n. n + length (c # take (w - 1) cs)) (scanString X)" for X
            by (rule scanString_high [OF hb])
          then have "scanString (c # take (w - 1) cs @ X) =
              map_option (\<lambda>n. n + length (c # take (w - 1) cs)) (scanString X)" for X
            by simp
          then show ?thesis
            unfolding Cons using encodeString_rune [OF high dec valid] other
            by (simp add: IH del: scanString.simps encodeString.simps)
        qed
      qed
    qed
  qed
qed

lemma prepend_Some: "prepend xs (Some ys) = Some (xs @ ys)"
  by (simp add: prepend_def)

lemma getu4_escape:
  assumes "isHexDigit h1" "isHexDigit h2" "isHexDigit h3" "isHexDigit h4"
  shows "getu4 (backslash # CHR ''u'' # h1 # h2 # h3 # h4 # X) =
    Some (hexVal h1 * 4096 + hexVal h2 * 256 + hexVal h3 * 16 + hexVal h4)"
  using assms by (simp add: getu4_def)

lemma unquote_u:
  assumes "isHexDigit h1" "isHexDigit h2" "isHexDigit h3" "isHexDigit h4"
    and "\<not> isSurrogate (hexVal h1 * 4096 + hexVal h2 * 256 + hexVal h3 * 16 + hexVal h4)"
  shows "unquote (backslash # CHR ''u'' # h1 # h2 # h3 # h4 # X) =
    prepend (EncodeRune (hexVal h1 * 4096 + hexVal h2 * 256 + hexVal h3 * 16 + hexVal h4))
      (unquote X)"
  using assms(5) getu4_escape [OF assms(1-4)]
  by (simp add: quote_def backslash_def)

lemma unquote_escapeASCII:
  assumes "(of_char c :: nat) < 128"
  shows "unquote (escapeASCII c @ X) = prepend [c] (unquote X)"
proof (cases "htmlSafe c")
  case True
  then show ?thesis
    by (simp add: escapeASCII_def htmlSafe_def)
next
  case False
  let ?n = "of_char c :: nat"
  from assms have lt: "?n div 16 < 16" "?n mod 16 < 16" by simp_all
  have zero: "isHexDigit (CHR ''0'')" "hexVal (CHR ''0'') = 0"
    by (simp_all add: isHexDigit_def isDigit_def hexVal_def)
  have val: "hexVal (CHR ''0'') * 4096 + hexVal (CHR ''0'') * 256 + hexVal (hex (?n div 16)) * 16 +
      hexVal (hex (?n mod 16)) = ?n"
    using lt by (simp add: zero hex_digit)
  have ns: "\<not> isSurrogate ?n" using assms by (simp add: isSurrogate_def)
  have enc: "EncodeRune ?n = [c]" using assms by (simp add: EncodeRune_def)
  have u: "unquote (backslash # CHR ''u'' # CHR ''0'' # CHR ''0'' # hex (?n div 16) #
      hex (?n mod 16) # X) = prepend [c] (unquote X)"
    using unquote_u [of "CHR ''0''" "CHR ''0''" "hex (?n div 16)" "hex (?n mod 16)" X]
    unfolding val using zero(1) lt ns enc by (simp add: hex_digit)
  from False show ?thesis
    unfolding escapeASCII_def
    by (simp add: u del: unquote.simps) (auto simp: quote_def backslash_def)
qed


lemma unquote_ufffd:
  "unquote (backslash # ''ufffd'' @ X) = prepend (EncodeRune RuneError) (unquote X)"
proof -
  have hx: "isHexDigit (CHR ''f'')" "isHexDigit (CHR ''d'')"
    "hexVal (CHR ''f'') = 15" "hexVal (CHR ''d'') = 13"
    by (simp_all add: isHexDigit_def isDigit_def hexVal_def)
  show ?thesis
    using unquote_u [of "CHR ''f''" "CHR ''f''" "CHR ''f''" "CHR ''d''" X]
    by (simp add: hx isSurrogate_def RuneError_def del: unquote.simps)
qed

lemma unquote_separator:
  assumes "r = 0x2028 \<or> r = 0x2029"
  shows "unquote (backslash # ''u202'' @ [hex (r mod 16)] @ X) =
    prepend (EncodeRune r) (unquote X)"
proof -
  have hx: "isHexDigit (CHR ''2'')" "isHexDigit (CHR ''0'')"
    "hexVal (CHR ''2'') = 2" "hexVal (CHR ''0'') = 0"
    by (simp_all add: isHexDigit_def isDigit_def hexVal_def)
  have val: "2 * 4096 + 0 * 256 + 2 * 16 + r mod 16 = r"
    using assms by auto
  have ns: "\<not> isSurrogate r" using assms by (auto simp: isSurrogate_def)
  show ?thesis
    using unquote_u [of "CHR ''2''" "CHR ''0''" "CHR ''2''" "hex (r mod 16)" X]
      hex_8_9 [OF assms] ns val
    by (simp add: hx del: unquote.simps)
qed

lemma unquote_rune:
  assumes dec: "DecodeRune (c # cs) = (r, w)" and ok: "\<not> (r = RuneError \<and> w = 1)"
    and high: "128 \<le> (of_char c :: nat)"
  shows "unquote (c # take (w - 1) cs @ X) = prepend (c # take (w - 1) cs) (unquote X)"
proof -
  note v = DecodeRune_valid [OF dec ok high]
  from v have d: "DecodeRune (c # take (w - 1) cs @ X) = (r, w)" by blast
  from v have len: "length (take (w - 1) cs) = w - 1" by simp
  from high have c: "c \<noteq> backslash" "c \<noteq> quote" "\<not> (of_char c :: nat) < 32"
    "\<not> (of_char c :: nat) < 128"
    by (auto simp: quote_def backslash_def)
  have "unquote (c # take (w - 1) cs @ X) =
      prepend (EncodeRune r) (unquote (drop (w - 1) (take (w - 1) cs @ X)))"
    using c d by (simp del: DecodeRune.simps)
  also have "drop (w - 1) (take (w - 1) cs @ X) = X"
    using len by simp
  finally show ?thesis using v by simp
qed

text \<open>A string of valid UTF-8 is read back as it was.\<close>

lemma unquote_encodeString:
  "ValidString s \<Longrightarrow> unquote (encodeString s) = Some s"
proof (induction s rule: length_induct)
  case (1 s)
  show ?case
  proof (cases s)
    case Nil
    then show ?thesis by simp
  next
    case (Cons c cs)
    have IH: "unquote (encodeString t) = Some t"
      if "length t \<le> length cs" "ValidString t" for t
      using 1 that by (simp add: Cons)
    obtain r w where dec: "DecodeRune (c # cs) = (r, w)" by (cases "DecodeRune (c # cs)")
    from 1(2) have valid: "\<not> (r = RuneError \<and> w = 1)" and rest: "ValidString (drop (w - 1) cs)"
      using dec by (simp_all add: Cons del: DecodeRune.simps)
    show ?thesis
    proof (cases "(of_char c :: nat) < 128")
      case True
      then have "w = 1" using dec by simp
      with rest have "ValidString cs" by simp
      then have "unquote (encodeString cs) = Some cs" by (simp add: IH)
      then show ?thesis
        unfolding Cons encodeString_ascii [OF True] unquote_escapeASCII [OF True]
        by (simp add: prepend_Some)
    next
      case False
      then have high: "128 \<le> (of_char c :: nat)" by simp
      note v = DecodeRune_valid [OF dec valid high]
      have tl: "unquote (encodeString (drop (w - 1) cs)) = Some (drop (w - 1) cs)"
        using rest by (simp add: IH)
      have whole: "c # take (w - 1) cs @ drop (w - 1) cs = c # cs" by simp
      show ?thesis
      proof (cases "r = 0x2028 \<or> r = 0x2029")
        case True
        show ?thesis
          unfolding Cons encodeString_separator [OF high dec True] unquote_separator [OF True] tl
          using v by (simp add: prepend_Some)
      next
        case False
        then have "encodeString (c # cs) = c # take (w - 1) cs @ encodeString (drop (w - 1) cs)"
          using encodeString_rune [OF high dec valid] by simp
        then show ?thesis
          unfolding Cons using unquote_rune [OF dec valid high] tl
          by (simp add: prepend_Some del: unquote.simps encodeString.simps)
      qed
    qed
  qed
qed

section \<open>Numbers in decimal: what is written is read back\<close>

lemma digit_value: "n < 10 \<Longrightarrow> (of_char (digit n) :: nat) - 48 = n"
  by (simp add: digit_def)

lemma digitsVal_digitsOf: "digitsVal (digitsOf n) = n"
proof (induction n rule: digitsOf.induct)
  case (1 n)
  show ?case
  proof (cases "n < 10")
    case True
    then show ?thesis by (simp add: digitsOf_lt10 digitsVal_def digit_value)
  next
    case False
    with 1 show ?thesis by (simp add: digitsOf_ge10 digitsVal_snoc digit_value)
  qed
qed

lemma length_digitsOf: "0 < w \<Longrightarrow> n < 10 ^ w \<Longrightarrow> length (digitsOf n) \<le> w"
proof (induction n arbitrary: w rule: digitsOf.induct)
  case (1 n)
  show ?case
  proof (cases "n < 10")
    case True
    with 1(2) show ?thesis by (simp add: digitsOf_lt10)
  next
    case False
    with 1(3) have "1 < w" by (cases "w = 1") (use 1(2) in auto)
    then obtain v where w: "w = Suc v" and v: "0 < v" by (cases w) auto
    from 1(3) have "n div 10 < 10 ^ v" unfolding w by (simp add: less_mult_imp_div_less mult.commute)
    with 1(1) False v have "length (digitsOf (n div 10)) \<le> v" by simp
    with False show ?thesis by (simp add: digitsOf_ge10 w)
  qed
qed

lemma digitsVal_zeros: "digitsVal (replicate k (CHR ''0'') @ s) = digitsVal s"
proof -
  have "foldl (\<lambda>a c. a * 10 + (of_char c - 48)) (0::nat) (replicate k (CHR ''0'')) = 0"
    by (induction k) simp_all
  then show ?thesis by (simp add: digitsVal_def)
qed

text \<open>A number that fits its width is written in exactly that many digits.\<close>

lemma appendInt_field:
  assumes "0 < w" "n < 10 ^ w"
  shows "length (appendInt (int n) w) = w" "list_all isDigit (appendInt (int n) w)"
    "digitsVal (appendInt (int n) w) = n"
proof -
  have zero: "isDigit (CHR ''0'')" by (simp add: isDigit_def)
  have e: "appendInt (int n) w = replicate (w - length (digitsOf n)) (CHR ''0'') @ digitsOf n"
    by (simp add: appendInt_def Let_def)
  show "length (appendInt (int n) w) = w"
    unfolding e using length_digitsOf [OF assms] by simp
  show "list_all isDigit (appendInt (int n) w)"
    unfolding e using digitsOf_digits [of n] zero by (auto simp: list_all_iff)
  show "digitsVal (appendInt (int n) w) = n"
    unfolding e by (simp add: digitsVal_zeros digitsVal_digitsOf)
qed

lemma parseUint_appendInt:
  assumes "0 < w" "n < 10 ^ w" "lo \<le> n" "n \<le> hi"
  shows "parseUint (appendInt (int n) w) lo hi = Some n"
  using assms appendInt_field [OF assms(1,2)] by (simp add: parseUint_def)


section \<open>Timestamps: what is written is read back\<close>

lemma digitsVal_append_zeros:
  "digitsVal (s @ replicate k (CHR ''0'')) = digitsVal s * 10 ^ k"
proof (induction k)
  case 0
  then show ?case by simp
next
  case (Suc k)
  have "s @ replicate (Suc k) (CHR ''0'') = (s @ replicate k (CHR ''0'')) @ [CHR ''0'']"
    by (simp add: replicate_append_same)
  then show ?case using Suc by (simp only: digitsVal_snoc) simp
qed

lemma trimZeros_append:
  "\<exists>k. s = trimZeros s @ replicate k (CHR ''0'')"
proof (induction s)
  case Nil
  then show ?case by simp
next
  case (Cons c s)
  then obtain k where k: "s = trimZeros s @ replicate k (CHR ''0'')" by blast
  show ?case
  proof (cases "trimZeros s = [] \<and> c = CHR ''0''")
    case True
    with k have "c # s = replicate (Suc k) (CHR ''0'')" by simp
    moreover from True have "trimZeros (c # s) = []" by simp
    ultimately show ?thesis by (intro exI [of _ "Suc k"]) simp
  next
    case False
    then have "trimZeros (c # s) = c # trimZeros s" by (auto simp: Let_def)
    with k show ?thesis by (intro exI [of _ k]) simp
  qed
qed

lemma trimZeros_digits: "list_all isDigit s \<Longrightarrow> list_all isDigit (trimZeros s)"
  by (induction s) (auto simp: Let_def)

text \<open>The fraction that \<open>appendNano\<close> writes has at most nine digits and stands
  for the nanoseconds.\<close>

lemma appendNano_fraction:
  assumes "0 < ns" "ns < 1000000000"
  shows "\<exists>ds. appendNano ns = CHR ''.'' # ds \<and> ds \<noteq> [] \<and> list_all isDigit ds \<and>
    parseNanoseconds ds = ns"
proof -
  let ?d = "appendInt (int ns) 9"
  from assms have lt: "ns < 10 ^ 9" by simp
  note f = appendInt_field [OF _ lt, simplified]
  obtain k where k: "?d = trimZeros ?d @ replicate k (CHR ''0'')"
    using trimZeros_append by blast
  have val: "digitsVal (trimZeros ?d) * 10 ^ k = ns"
    using digitsVal_append_zeros [of "trimZeros ?d" k] k f(3) by simp
  have len: "length (trimZeros ?d) + k = 9"
    using arg_cong [OF k, of length] f(1) by simp
  have ne: "trimZeros ?d \<noteq> []"
  proof
    assume "trimZeros ?d = []"
    with val have "ns = 0" by (simp add: digitsVal_def)
    with assms show False by simp
  qed
  from len have t9: "take 9 (trimZeros ?d) = trimZeros ?d" and k9: "9 - length (trimZeros ?d) = k"
    by simp_all
  have "parseNanoseconds (trimZeros ?d) = ns"
    unfolding parseNanoseconds_def t9 k9 by (rule val)
  with ne trimZeros_digits [OF f(2)] assms show ?thesis
    by (simp add: appendNano_def)
qed


lemma appendZone_head:
  "\<exists>c z. appendZone off = c # z \<and> \<not> isDigit c \<and> c \<noteq> CHR ''.''"
  by (simp add: appendZone_def Let_def isDigit_def)

lemma spanDigits_append:
  assumes "list_all isDigit ds" "\<not> isDigit c"
  shows "spanDigits (ds @ c # z) = length ds"
  using assms by (simp add: spanDigits_def list_all_iff)

lemma parseFraction_appendNano:
  assumes "ns < 1000000000"
  shows "parseFraction (appendNano ns @ appendZone off) = (length (appendNano ns), ns)"
proof -
  obtain c z where z: "appendZone off = c # z" "\<not> isDigit c" "c \<noteq> CHR ''.''"
    using appendZone_head by blast
  show ?thesis
  proof (cases "ns = 0")
    case True
    then show ?thesis using z by (simp add: appendNano_def parseFraction_def)
  next
    case False
    with assms obtain ds where ds: "appendNano ns = CHR ''.'' # ds" "ds \<noteq> []"
      "list_all isDigit ds" "parseNanoseconds ds = ns"
      using appendNano_fraction [of ns] by auto
    from ds(2,3) have hd: "isDigit ((ds @ c # z) ! 0)"
      by (cases ds) simp_all
    have sp: "spanDigits (ds @ c # z) = length ds"
      by (rule spanDigits_append [OF ds(3) z(2)])
    show ?thesis
      unfolding ds(1) z(1) using hd ds(4)
      by (simp add: parseFraction_def sp)
  qed
qed

text \<open>A zone of whole minutes, less than a day from UTC.\<close>

lemma parseZone_appendZone:
  assumes "off mod 60 = 0" "\<bar>off\<bar> < 86400"
  shows "parseZone (appendZone off) = Some off"
proof (cases "off = 0")
  case True
  then show ?thesis by (simp add: appendZone_def parseZone_def)
next
  case False
  let ?zone = "nat \<bar>off\<bar> div 60"
  let ?h = "appendInt (int (?zone div 60)) 2" and ?m = "appendInt (int (?zone mod 60)) 2"
  let ?sg = "if off \<le> - 60 then CHR ''-'' else CHR ''+''"
  from assms(2) have hb: "?zone div 60 < 24" by simp
  have mb: "?zone mod 60 < 60" by simp
  have h: "length ?h = 2" "parseUint ?h 0 23 = Some (?zone div 60)"
    using hb by (simp_all add: appendInt_field parseUint_appendInt)
  have m: "length ?m = 2" "parseUint ?m 0 59 = Some (?zone mod 60)"
    using mb by (simp_all add: appendInt_field parseUint_appendInt)
  have e: "appendZone off = ?sg # ?h @ CHR '':'' # ?m"
    using False by (simp add: appendZone_def Let_def)
  have notZ: "?sg # ?h @ CHR '':'' # ?m \<noteq> ''Z''" by simp
  have parts: "take 2 (drop 1 (?sg # ?h @ CHR '':'' # ?m)) = ?h"
    "take 2 (drop 4 (?sg # ?h @ CHR '':'' # ?m)) = ?m"
    "(?sg # ?h @ CHR '':'' # ?m) ! 0 = ?sg" "(?sg # ?h @ CHR '':'' # ?m) ! 3 = CHR '':''"
    "length (?sg # ?h @ CHR '':'' # ?m) = 6"
    using h(1) m(1) by (simp_all add: nth_append)
  have dvd: "60 dvd off" using assms(1) by (simp add: dvd_eq_mod_eq_0)
  then have "60 dvd \<bar>off\<bar>" by simp
  then have "int 60 dvd int (nat \<bar>off\<bar>)" by simp
  then have "60 dvd nat \<bar>off\<bar>" by (simp only: int_dvd_int_iff)
  then have "?zone * 60 = nat \<bar>off\<bar>" by (rule dvd_div_mult_self)
  moreover have "?zone div 60 * 60 + ?zone mod 60 = ?zone" by (rule div_mult_mod_eq)
  ultimately have "(?zone div 60 * 60 + ?zone mod 60) * 60 = nat \<bar>off\<bar>" by simp
  then have whole: "int ((?zone div 60 * 60 + ?zone mod 60) * 60) = \<bar>off\<bar>" by simp
  have pos: "0 < off" if "\<not> off \<le> - 60"
  proof (rule ccontr)
    assume "\<not> 0 < off"
    with False have neg: "0 < - off" by simp
    from dvd have "60 dvd - off" by simp
    then have "60 \<le> - off" using neg by (rule zdvd_imp_le)
    with that show False by simp
  qed
  have sign: "(if ?sg = CHR ''-'' then - 1 else 1) * \<bar>off\<bar> = off"
  proof (cases "off \<le> - 60")
    case True
    then show ?thesis by simp
  next
    case False
    with pos show ?thesis by simp
  qed
  have "parseZone (?sg # ?h @ CHR '':'' # ?m) =
      Some ((if ?sg = CHR ''-'' then - 1 else 1) * int ((?zone div 60 * 60 + ?zone mod 60) * 60))"
    unfolding parseZone_def parts using notZ h(2) m(2) by simp
  also have "\<dots> = Some off" unfolding whole sign ..
  finally show ?thesis unfolding e .
qed


text \<open>The first nineteen bytes: the date and the clock reading in fields of fixed
  width.\<close>

lemma parseDateTime_fields:
  assumes len: "length Y = 4" "length Mo = 2" "length D = 2" "length H = 2" "length Mi = 2"
      "length S = 2"
    and y: "parseUint Y 0 9999 = Some y"
    and mo: "parseUint Mo 1 12 = Some mo"
    and d: "parseUint D 1 (daysIn mo (int y)) = Some d"
    and h: "parseUint H 0 23 = Some h"
    and mi: "parseUint Mi 0 59 = Some mi"
    and sec: "parseUint S 0 59 = Some sec"
  shows "parseDateTime (Y @ CHR ''-'' # Mo @ CHR ''-'' # D @ CHR ''T'' # H @ CHR '':'' # Mi @
      CHR '':'' # S @ rest) = Some (y, mo, d, h, mi, sec)"
proof -
  let ?s = "Y @ CHR ''-'' # Mo @ CHR ''-'' # D @ CHR ''T'' # H @ CHR '':'' # Mi @
      CHR '':'' # S @ rest"
  have parts: "take 4 ?s = Y" "take 2 (drop 5 ?s) = Mo" "take 2 (drop 8 ?s) = D"
    "take 2 (drop 11 ?s) = H" "take 2 (drop 14 ?s) = Mi" "take 2 (drop 17 ?s) = S"
    using len by simp_all
  have seps: "?s ! 4 = CHR ''-''" "?s ! 7 = CHR ''-''" "?s ! 10 = CHR ''T''"
    "?s ! 13 = CHR '':''" "?s ! 16 = CHR '':''"
    using len by (simp_all add: nth_append nth_Cons')
  show ?thesis
    unfolding parseDateTime_def parts seps using y mo d h mi sec by simp
qed

lemma parseRFC3339_formatRFC3339Nano:
  assumes wf: "wellformed t" and year: "0 \<le> Year t" "Year t \<le> 9999"
    and zone: "ZoneOffset t mod 60 = 0" "\<bar>ZoneOffset t\<bar> < 86400"
  shows "parseRFC3339 (formatRFC3339Nano t) = Some t"
proof -
  let ?Y = "appendInt (Year t) 4" and ?Mo = "appendInt (int (Month t)) 2"
    and ?D = "appendInt (int (Day t)) 2" and ?H = "appendInt (int (Hour t)) 2"
    and ?Mi = "appendInt (int (Minute t)) 2" and ?S = "appendInt (int (Second t)) 2"
  let ?rest = "appendNano (Nanosecond t) @ appendZone (ZoneOffset t)"
  let ?s = "?Y @ CHR ''-'' # ?Mo @ CHR ''-'' # ?D @ CHR ''T'' # ?H @ CHR '':'' # ?Mi @
      CHR '':'' # ?S @ ?rest"
  have e: "formatRFC3339Nano t = ?s" by (simp add: formatRFC3339Nano_def)
  from year(1) obtain yn where Y: "Year t = int yn" by (rule nonneg_int_cases)
  with year(2) have yb: "yn < 10 ^ 4" "yn \<le> 9999" by simp_all
  from wf have days: "Day t \<le> 31"
    by (auto simp: wellformed_def daysIn_def split: if_splits)
  from wf have b: "Month t < 10 ^ 2" "Day t < 10 ^ 2" "Hour t < 10 ^ 2" "Minute t < 10 ^ 2"
    "Second t < 10 ^ 2"
    using days by (simp_all add: wellformed_def)
  have lenY: "length ?Y = 4"
    unfolding Y using yb by (simp add: appendInt_field)
  have pY: "parseUint ?Y 0 9999 = Some yn"
    unfolding Y using yb by (intro parseUint_appendInt) simp_all
  have len2: "length ?Mo = 2" "length ?D = 2" "length ?H = 2" "length ?Mi = 2" "length ?S = 2"
    using b by (simp_all add: appendInt_field)
  have pMo: "parseUint ?Mo 1 12 = Some (Month t)"
    using wf b by (intro parseUint_appendInt) (simp_all add: wellformed_def)
  have pD: "parseUint ?D 1 (daysIn (Month t) (int yn)) = Some (Day t)"
    using wf b Y by (intro parseUint_appendInt) (simp_all add: wellformed_def)
  have pH: "parseUint ?H 0 23 = Some (Hour t)"
    using wf b by (intro parseUint_appendInt) (simp_all add: wellformed_def)
  have pMi: "parseUint ?Mi 0 59 = Some (Minute t)"
    using wf b by (intro parseUint_appendInt) (simp_all add: wellformed_def)
  have pS: "parseUint ?S 0 59 = Some (Second t)"
    using wf b by (intro parseUint_appendInt) (simp_all add: wellformed_def)
  have dt: "parseDateTime ?s =
      Some (yn, Month t, Day t, Hour t, Minute t, Second t)"
    by (rule parseDateTime_fields [OF lenY len2 pY pMo pD pH pMi pS])
  have long: "\<not> length ?s < 19" using lenY len2 by simp
  have rest: "drop 19 ?s = ?rest" using lenY len2 by simp
  from wf have ns: "Nanosecond t < 1000000000" by (simp add: wellformed_def)
  have fr: "parseFraction ?rest = (length (appendNano (Nanosecond t)), Nanosecond t)"
    by (rule parseFraction_appendNano [OF ns])
  have zn: "parseZone (appendZone (ZoneOffset t)) = Some (ZoneOffset t)"
    by (rule parseZone_appendZone [OF zone])
  have "parseRFC3339 ?s = Some \<lparr>Year = int yn, Month = Month t, Day = Day t,
      Hour = Hour t, Minute = Minute t, Second = Second t, Nanosecond = Nanosecond t,
      ZoneOffset = ZoneOffset t\<rparr>"
    unfolding parseRFC3339_def rest fr dt using long zn by simp
  then show ?thesis unfolding e using Y by simp
qed

lemma parseStrictRFC3339_formatRFC3339Nano:
  assumes "wellformed t" "0 \<le> Year t" "Year t \<le> 9999"
    "ZoneOffset t mod 60 = 0" "\<bar>ZoneOffset t\<bar> < 86400"
  shows "parseStrictRFC3339 (formatRFC3339Nano t) = Some t"
  by (simp add: parseStrictRFC3339_def parseRFC3339_formatRFC3339Nano [OF assms])

section \<open>The text of a serialized record, token by token\<close>

text \<open>Bytes that the scanner passes over inside a string literal.\<close>

lemma scanString_plain:
  assumes "\<forall>c\<in>set s. c \<noteq> quote \<and> c \<noteq> backslash \<and> 32 \<le> (of_char c :: nat)"
  shows "scanString (s @ quote # X) = Some (length s)"
  using assms
proof (induction s)
  case Nil
  then show ?case by simp
next
  case (Cons c s)
  then have "scanString (c # s @ quote # X) = map_option Suc (scanString (s @ quote # X))"
    by (intro scanString_plain_char) simp_all
  with Cons show ?case by simp
qed

lemma plain_digit:
  "isDigit c \<Longrightarrow> c \<noteq> quote \<and> c \<noteq> backslash \<and> 32 \<le> (of_char c :: nat)"
  by (auto simp: isDigit_def quote_def backslash_def)

lemma plain_appendInt:
  "\<forall>c\<in>set (appendInt x w). c \<noteq> quote \<and> c \<noteq> backslash \<and> 32 \<le> (of_char c :: nat)"
proof
  fix c
  assume "c \<in> set (appendInt x w)"
  then consider "c = CHR ''-''" | "c = CHR ''0''" | "c \<in> set (digitsOf (nat \<bar>x\<bar>))"
    by (auto simp: appendInt_def Let_def split: if_splits)
  then show "c \<noteq> quote \<and> c \<noteq> backslash \<and> 32 \<le> (of_char c :: nat)"
  proof cases
    case 1
    then show ?thesis by (simp add: quote_def backslash_def)
  next
    case 2
    then show ?thesis by (simp add: quote_def backslash_def)
  next
    case 3
    with digitsOf_digits [of "nat \<bar>x\<bar>"] have "isDigit c" by (simp add: list_all_iff)
    then show ?thesis by (rule plain_digit)
  qed
qed

lemma set_trimZeros: "set (trimZeros s) \<subseteq> set s"
  by (induction s) (auto simp: Let_def)

lemma plain_appendNano:
  "\<forall>c\<in>set (appendNano ns). c \<noteq> quote \<and> c \<noteq> backslash \<and> 32 \<le> (of_char c :: nat)"
proof
  fix c
  assume "c \<in> set (appendNano ns)"
  then consider "c = CHR ''.''" | "c \<in> set (trimZeros (appendInt (int ns) 9))"
    by (auto simp: appendNano_def split: if_splits)
  then show "c \<noteq> quote \<and> c \<noteq> backslash \<and> 32 \<le> (of_char c :: nat)"
  proof cases
    case 1
    then show ?thesis by (simp add: quote_def backslash_def)
  next
    case 2
    with set_trimZeros have "c \<in> set (appendInt (int ns) 9)" by blast
    with plain_appendInt show ?thesis by blast
  qed
qed

lemma plain_appendZone:
  "\<forall>c\<in>set (appendZone off). c \<noteq> quote \<and> c \<noteq> backslash \<and> 32 \<le> (of_char c :: nat)"
proof
  fix c
  let ?zone = "nat \<bar>off\<bar> div 60"
  assume "c \<in> set (appendZone off)"
  then consider "c \<in> set ''Z-+:''" | "c \<in> set (appendInt (int (?zone div 60)) 2)"
    | "c \<in> set (appendInt (int (?zone mod 60)) 2)"
    by (auto simp: appendZone_def Let_def split: if_splits)
  then show "c \<noteq> quote \<and> c \<noteq> backslash \<and> 32 \<le> (of_char c :: nat)"
  proof cases
    case 1
    then show ?thesis by (auto simp: quote_def backslash_def)
  next
    case 2
    with plain_appendInt show ?thesis by blast
  next
    case 3
    with plain_appendInt show ?thesis by blast
  qed
qed

lemma plain_formatRFC3339Nano:
  "\<forall>c\<in>set (formatRFC3339Nano t). c \<noteq> quote \<and> c \<noteq> backslash \<and> 32 \<le> (of_char c :: nat)"
proof
  fix c
  assume "c \<in> set (formatRFC3339Nano t)"
  then consider "c \<in> set ''-T:''" | "\<exists>x w. c \<in> set (appendInt x w)"
    | "c \<in> set (appendNano (Nanosecond t))" | "c \<in> set (appendZone (ZoneOffset t))"
    unfolding formatRFC3339Nano_def by (simp only: set_append Un_iff list.set insert_iff) blast
  then show "c \<noteq> quote \<and> c \<noteq> backslash \<and> 32 \<le> (of_char c :: nat)"
  proof cases
    case 1
    then show ?thesis by (auto simp: quote_def backslash_def)
  next
    case 2
    with plain_appendInt show ?thesis by blast
  next
    case 3
    with plain_appendNano show ?thesis by blast
  next
    case 4
    with plain_appendZone show ?thesis by blast
  qed
qed

text \<open>Inside a string literal the scanner fails on every text that ends before
  the closing quote.\<close>

lemma scanString_cut:
  "scanString (xs @ ys) = Some n \<Longrightarrow> length xs \<le> n \<Longrightarrow> scanString xs = None"
proof (induction xs arbitrary: n rule: length_induct)
  case (1 xs)
  show ?case
  proof (cases xs)
    case Nil
    then show ?thesis by simp
  next
    case (Cons c cs)
    note IH = 1(1) [rule_format]
    show ?thesis
    proof (cases "c = quote")
      case True
      with 1(2,3) Cons show ?thesis by simp
    next
      case nq: False
      show ?thesis
      proof (cases "c = backslash")
        case bs: True
        show ?thesis
        proof (cases cs)
          case Nil
          with Cons bs nq show ?thesis by simp
        next
          case cs: (Cons e es)
          show ?thesis
          proof (cases "e \<in> set [CHR ''b'', CHR ''f'', CHR ''n'', CHR ''r'', CHR ''t'',
                          backslash, CHR ''/'', quote]")
            case True
            with 1(2) Cons cs bs nq obtain m where m: "scanString (es @ ys) = Some m" "n = m + 2"
              by (auto simp del: set_simps)
            with 1(3) Cons cs have "length es \<le> m" by simp
            with m(1) have "scanString es = None"
              by (intro IH [of es m]) (simp_all add: Cons cs)
            with True Cons cs bs nq show ?thesis by (simp del: set_simps)
          next
            case ne: False
            show ?thesis
            proof (cases "e = CHR ''u''")
              case u: True
              show ?thesis
              proof (cases "4 \<le> length es")
                case long: True
                then have t4: "take 4 (es @ ys) = take 4 es" "drop 4 (es @ ys) = drop 4 es @ ys"
                  by simp_all
                from 1(2) Cons cs bs nq ne u obtain m where
                  m: "scanString (drop 4 es @ ys) = Some m" "n = m + 6"
                  unfolding t4 [symmetric]
                  by (auto simp del: set_simps split: if_splits)
                with 1(3) Cons cs long have "length (drop 4 es) \<le> m" by simp
                with m(1) have "scanString (drop 4 es) = None"
                  by (intro IH [of "drop 4 es" m]) (simp_all add: Cons cs)
                with Cons cs bs nq ne u show ?thesis by (simp del: set_simps)
              next
                case False
                with Cons cs bs nq ne u show ?thesis by (simp del: set_simps)
              qed
            next
              case False
              with Cons cs bs nq ne show ?thesis by (simp del: set_simps)
            qed
          qed
        qed
      next
        case nb: False
        show ?thesis
        proof (cases "(of_char c :: nat) < 32")
          case True
          with Cons nq nb show ?thesis by simp
        next
          case False
          with 1(2) Cons nq nb obtain m where m: "scanString (cs @ ys) = Some m" "n = Suc m"
            by auto
          with 1(3) Cons have "length cs \<le> m" by simp
          with m(1) have "scanString cs = None"
            by (intro IH [of cs m]) (simp_all add: Cons)
          with False Cons nq nb show ?thesis by simp
        qed
      qed
    qed
  qed
qed

text \<open>
  A text made of pieces, each of which the scanner reads as one token whatever
  follows it, and none of which it accepts when cut short: the text is read as the
  tokens of its pieces, and every text that ends before it does is refused or read
  as fewer tokens.
\<close>

lemma lex_pieces:
  assumes "\<forall>(t, x)\<in>set items. \<forall>Y. lex (x @ Y) = cons_token t (lex Y)"
  shows "lex (concat (map snd items) @ Y) = map_option ((@) (map fst items)) (lex Y)"
  using assms
proof (induction items)
  case Nil
  then show ?case by (simp add: option.map_ident)
next
  case (Cons a items)
  obtain t x where a: "a = (t, x)" by (cases a)
  from Cons.prems a have x: "lex (x @ Z) = cons_token t (lex Z)" for Z by simp
  from Cons have "lex (concat (map snd items) @ Y) = map_option ((@) (map fst items)) (lex Y)"
    by simp
  then show ?case
    by (simp add: a x cons_token_def option.map_comp comp_def)
qed

lemma lex_pieces_cut:
  assumes good: "\<forall>(t, x)\<in>set items. \<forall>Y. lex (x @ Y) = cons_token t (lex Y)"
    and cut: "\<forall>(t, x)\<in>set items. \<forall>n. 0 < n \<and> n < length x \<longrightarrow> lex (take n x) = None"
    and n: "n < length (concat (map snd items))"
  shows "lex (take n (concat (map snd items))) = None \<or>
    (\<exists>i<length items. lex (take n (concat (map snd items))) = Some (take i (map fst items)))"
  using assms
proof (induction items arbitrary: n)
  case Nil
  then show ?case by simp
next
  case (Cons a items)
  obtain t x where a: "a = (t, x)" by (cases a)
  from Cons.prems(1) a have x: "lex (x @ Z) = cons_token t (lex Z)" for Z by simp
  from Cons.prems(2) a have c: "lex (take k x) = None" if "0 < k" "k < length x" for k
    using that by simp
  let ?rest = "concat (map snd items)"
  consider (zero) "n = 0" | (inside) "0 < n" "n < length x" | (after) "length x \<le> n"
    by linarith
  then show ?case
  proof cases
    case zero
    then show ?thesis by simp
  next
    case inside
    then have "take n (concat (map snd (a # items))) = take n x" by (simp add: a)
    with c [OF inside] show ?thesis by simp
  next
    case after
    then have e: "take n (concat (map snd (a # items))) = x @ take (n - length x) ?rest"
      by (simp add: a)
    from after Cons.prems(3) have n': "n - length x < length ?rest" by (simp add: a)
    from Cons.prems(1,2) have "lex (take (n - length x) ?rest) = None \<or>
      (\<exists>i<length items. lex (take (n - length x) ?rest) = Some (take i (map fst items)))"
      by (intro Cons.IH [OF _ _ n']) simp_all
    then show ?thesis
    proof
      assume "lex (take (n - length x) ?rest) = None"
      then show ?thesis unfolding e x by (simp add: cons_token_def)
    next
      assume "\<exists>i<length items. lex (take (n - length x) ?rest) = Some (take i (map fst items))"
      then obtain i where i: "i < length items"
        "lex (take (n - length x) ?rest) = Some (take i (map fst items))"
        by blast
      have "lex (take n (concat (map snd (a # items)))) =
          Some (take (Suc i) (map fst (a # items)))"
        unfolding e x i(2) by (simp add: cons_token_def a)
      moreover have "Suc i < length (a # items)" using i(1) by simp
      ultimately show ?thesis by blast
    qed
  qed
qed

text \<open>The pieces of a serialized record: punctuation and string literals.\<close>

lemma lex_punctuation:
  "lex (''{'' @ Y) = cons_token LBrace (lex Y)"
  "lex (''}'' @ Y) = cons_token RBrace (lex Y)"
  "lex ('':'' @ Y) = cons_token Colon (lex Y)"
  "lex ('','' @ Y) = cons_token Comma (lex Y)"
  by (simp_all add: isSpace_def)

lemma lex_literal:
  assumes "\<And>X. scanString (b @ quote # X) = Some (length b)"
  shows "lex ((quote # b @ [quote]) @ Y) = cons_token (StringLit b) (lex Y)"
proof -
  have "\<not> isSpace quote" "quote \<noteq> CHR ''{''" "quote \<noteq> CHR ''}''" "quote \<noteq> CHR ''[''"
    "quote \<noteq> CHR '']''" "quote \<noteq> CHR '':''" "quote \<noteq> CHR '',''"
    by (simp_all add: isSpace_def quote_def)
  then show ?thesis using assms [of Y] by simp
qed

lemma lex_literal_cut:
  assumes scan: "\<And>X. scanString (b @ quote # X) = Some (length b)"
    and n: "0 < n" "n < length (quote # b @ [quote])"
  shows "lex (take n (quote # b @ [quote])) = None"
proof -
  from n obtain k where k: "n = Suc k" "k \<le> length b" by (cases n) auto
  then have e: "take n (quote # b @ [quote]) = quote # take k b" by simp
  have whole: "take k b @ drop k b @ [quote] = b @ [quote]"
    by (simp flip: append_assoc)
  have "scanString (take k b @ drop k b @ [quote]) = Some (length b)"
    unfolding whole by (rule scan)
  moreover have "length (take k b) \<le> length b" by simp
  ultimately have "scanString (take k b) = None" by (rule scanString_cut)
  moreover have "\<not> isSpace quote" "quote \<noteq> CHR ''{''" "quote \<noteq> CHR ''}''" "quote \<noteq> CHR ''[''"
    "quote \<noteq> CHR '']''" "quote \<noteq> CHR '':''" "quote \<noteq> CHR '',''"
    by (simp_all add: isSpace_def quote_def)
  ultimately show ?thesis unfolding e by simp
qed


lemma scanString_key:
  "scanString (''timestamp'' @ quote # X) = Some (length ''timestamp'')"
  "scanString (''application'' @ quote # X) = Some (length ''application'')"
  "scanString (''level'' @ quote # X) = Some (length ''level'')"
  "scanString (''message'' @ quote # X) = Some (length ''message'')"
  by (rule scanString_plain, simp add: quote_def backslash_def)+

text \<open>The text that \<open>Marshal\<close> writes, with whatever stands between the quotes of
  the four values, and its tokens.\<close>

lemma record_pieces:
  "''{'' @ jsonKey ''timestamp'' @ ([quote] @ T @ [quote]) @ '','' @
   jsonKey ''application'' @ ([quote] @ A @ [quote]) @ '','' @
   jsonKey ''level'' @ ([quote] @ L @ [quote]) @ '','' @
   jsonKey ''message'' @ ([quote] @ M @ [quote]) @ ''}'' =
   concat (map snd
     [(LBrace, ''{''), (StringLit ''timestamp'', quote # ''timestamp'' @ [quote]), (Colon, '':''),
      (StringLit T, quote # T @ [quote]), (Comma, '',''),
      (StringLit ''application'', quote # ''application'' @ [quote]), (Colon, '':''),
      (StringLit A, quote # A @ [quote]), (Comma, '',''),
      (StringLit ''level'', quote # ''level'' @ [quote]), (Colon, '':''),
      (StringLit L, quote # L @ [quote]), (Comma, '',''),
      (StringLit ''message'', quote # ''message'' @ [quote]), (Colon, '':''),
      (StringLit M, quote # M @ [quote]), (RBrace, ''}'')])"
  by (simp add: jsonKey_def)

lemma record_pieces_lex:
  assumes "\<And>X. scanString (T @ quote # X) = Some (length T)"
    and "\<And>X. scanString (A @ quote # X) = Some (length A)"
    and "\<And>X. scanString (L @ quote # X) = Some (length L)"
    and "\<And>X. scanString (M @ quote # X) = Some (length M)"
  shows "\<forall>(t, x)\<in>set
     [(LBrace, ''{''), (StringLit ''timestamp'', quote # ''timestamp'' @ [quote]), (Colon, '':''),
      (StringLit T, quote # T @ [quote]), (Comma, '',''),
      (StringLit ''application'', quote # ''application'' @ [quote]), (Colon, '':''),
      (StringLit A, quote # A @ [quote]), (Comma, '',''),
      (StringLit ''level'', quote # ''level'' @ [quote]), (Colon, '':''),
      (StringLit L, quote # L @ [quote]), (Comma, '',''),
      (StringLit ''message'', quote # ''message'' @ [quote]), (Colon, '':''),
      (StringLit M, quote # M @ [quote]), (RBrace, ''}'')].
     \<forall>Y. lex (x @ Y) = cons_token t (lex Y)"
proof -
  have lit: "\<forall>Y. lex ((quote # b @ [quote]) @ Y) = cons_token (StringLit b) (lex Y)"
    if "\<And>X. scanString (b @ quote # X) = Some (length b)" for b
    using lex_literal [OF that] by blast
  note p = lex_punctuation [THEN allI]
  note k = lit [OF scanString_key(1)] lit [OF scanString_key(2)] lit [OF scanString_key(3)]
    lit [OF scanString_key(4)]
  note v = lit [OF assms(1)] lit [OF assms(2)] lit [OF assms(3)] lit [OF assms(4)]
  show ?thesis
    unfolding list.set ball_simps prod.case
    by (intro conjI TrueI p k v)
qed

lemma record_pieces_cut:
  assumes "\<And>X. scanString (T @ quote # X) = Some (length T)"
    and "\<And>X. scanString (A @ quote # X) = Some (length A)"
    and "\<And>X. scanString (L @ quote # X) = Some (length L)"
    and "\<And>X. scanString (M @ quote # X) = Some (length M)"
  shows "\<forall>(t, x)\<in>set
     [(LBrace, ''{''), (StringLit ''timestamp'', quote # ''timestamp'' @ [quote]), (Colon, '':''),
      (StringLit T, quote # T @ [quote]), (Comma, '',''),
      (StringLit ''application'', quote # ''application'' @ [quote]), (Colon, '':''),
      (StringLit A, quote # A @ [quote]), (Comma, '',''),
      (StringLit ''level'', quote # ''level'' @ [quote]), (Colon, '':''),
      (StringLit L, quote # L @ [quote]), (Comma, '',''),
      (StringLit ''message'', quote # ''message'' @ [quote]), (Colon, '':''),
      (StringLit M, quote # M @ [quote]), (RBrace, ''}'')].
     \<forall>n. 0 < n \<and> n < length x \<longrightarrow> lex (take n x) = None"
proof -
  have punct: "\<forall>n. 0 < n \<and> n < length [c] \<longrightarrow> lex (take n [c]) = None" for c
    by auto
  have lit: "\<forall>n. 0 < n \<and> n < length (quote # b @ [quote]) \<longrightarrow>
         lex (take n (quote # b @ [quote])) = None"
    if "\<And>X. scanString (b @ quote # X) = Some (length b)" for b
    using lex_literal_cut [OF that] by blast
  note k = lit [OF scanString_key(1)] lit [OF scanString_key(2)] lit [OF scanString_key(3)]
    lit [OF scanString_key(4)]
  note v = lit [OF assms(1)] lit [OF assms(2)] lit [OF assms(3)] lit [OF assms(4)]
  show ?thesis
    unfolding list.set ball_simps prod.case
    by (intro conjI TrueI punct k v)
qed

text \<open>The tokens of a record are read as an object of four members, and no
  shorter run of them as a value.\<close>

lemma run_record:
  "run [LBrace, StringLit ''timestamp'', Colon, StringLit T, Comma,
        StringLit ''application'', Colon, StringLit A, Comma,
        StringLit ''level'', Colon, StringLit L, Comma,
        StringLit ''message'', Colon, StringLit M, RBrace] (BeginValue, []) =
   Some (EndTop (JObject [(''timestamp'', JString T), (''application'', JString A),
      (''level'', JString L), (''message'', JString M)]), [])"
  by (simp add: maxNestingDepth_def)

lemma run_record_cut:
  assumes "i < 17"
  shows "(case run (take i [LBrace, StringLit ''timestamp'', Colon, StringLit T, Comma,
        StringLit ''application'', Colon, StringLit A, Comma,
        StringLit ''level'', Colon, StringLit L, Comma,
        StringLit ''message'', Colon, StringLit M, RBrace]) (BeginValue, []) of
      Some (EndTop v, st) \<Rightarrow> Some v | _ \<Rightarrow> None) = None"
proof -
  have "\<forall>k<17. (case run (take k [LBrace, StringLit ''timestamp'', Colon, StringLit T, Comma,
        StringLit ''application'', Colon, StringLit A, Comma,
        StringLit ''level'', Colon, StringLit L, Comma,
        StringLit ''message'', Colon, StringLit M, RBrace]) (BeginValue, []) of
      Some (EndTop v, st) \<Rightarrow> Some v | _ \<Rightarrow> None) = None"
    unfolding below_upt
    by (simp add: upt_rec maxNestingDepth_def)
  with assms show ?thesis by blast
qed

lemma parse_record:
  assumes "\<And>X. scanString (T @ quote # X) = Some (length T)"
    and "\<And>X. scanString (A @ quote # X) = Some (length A)"
    and "\<And>X. scanString (L @ quote # X) = Some (length L)"
    and "\<And>X. scanString (M @ quote # X) = Some (length M)"
  shows "parse (''{'' @ jsonKey ''timestamp'' @ ([quote] @ T @ [quote]) @ '','' @
     jsonKey ''application'' @ ([quote] @ A @ [quote]) @ '','' @
     jsonKey ''level'' @ ([quote] @ L @ [quote]) @ '','' @
     jsonKey ''message'' @ ([quote] @ M @ [quote]) @ ''}'') =
   Some (JObject [(''timestamp'', JString T), (''application'', JString A),
      (''level'', JString L), (''message'', JString M)])"
proof -
  note good = record_pieces_lex [OF assms]
  show ?thesis
    unfolding record_pieces parse_def
    using lex_pieces [OF good, of "[]"] run_record [of T A L M]
    by (simp del: run.simps)
qed

lemma parse_record_cut:
  assumes "\<And>X. scanString (T @ quote # X) = Some (length T)"
    and "\<And>X. scanString (A @ quote # X) = Some (length A)"
    and "\<And>X. scanString (L @ quote # X) = Some (length L)"
    and "\<And>X. scanString (M @ quote # X) = Some (length M)"
    and n: "n < length (''{'' @ jsonKey ''timestamp'' @ ([quote] @ T @ [quote]) @ '','' @
     jsonKey ''application'' @ ([quote] @ A @ [quote]) @ '','' @
     jsonKey ''level'' @ ([quote] @ L @ [quote]) @ '','' @
     jsonKey ''message'' @ ([quote] @ M @ [quote]) @ ''}'')"
  shows "parse (take n (''{'' @ jsonKey ''timestamp'' @ ([quote] @ T @ [quote]) @ '','' @
     jsonKey ''application'' @ ([quote] @ A @ [quote]) @ '','' @
     jsonKey ''level'' @ ([quote] @ L @ [quote]) @ '','' @
     jsonKey ''message'' @ ([quote] @ M @ [quote]) @ ''}'')) = None"
proof -
  let ?items = "[(LBrace, ''{''), (StringLit ''timestamp'', quote # ''timestamp'' @ [quote]),
      (Colon, '':''), (StringLit T, quote # T @ [quote]), (Comma, '',''),
      (StringLit ''application'', quote # ''application'' @ [quote]), (Colon, '':''),
      (StringLit A, quote # A @ [quote]), (Comma, '',''),
      (StringLit ''level'', quote # ''level'' @ [quote]), (Colon, '':''),
      (StringLit L, quote # L @ [quote]), (Comma, '',''),
      (StringLit ''message'', quote # ''message'' @ [quote]), (Colon, '':''),
      (StringLit M, quote # M @ [quote]), (RBrace, ''}'')]"
  define bytes where "bytes = concat (map snd ?items)"
  define toks where "toks = map fst ?items"
  note good = record_pieces_lex [OF assms(1-4)]
  note cut = record_pieces_cut [OF assms(1-4)]
  from n have n': "n < length (concat (map snd ?items))"
    unfolding record_pieces .
  have len: "length ?items = 17" by simp
  have toks: "toks = [LBrace, StringLit ''timestamp'', Colon, StringLit T, Comma,
        StringLit ''application'', Colon, StringLit A, Comma,
        StringLit ''level'', Colon, StringLit L, Comma,
        StringLit ''message'', Colon, StringLit M, RBrace]"
    by (simp add: toks_def)
  have "lex (take n bytes) = None \<or> (\<exists>i<17. lex (take n bytes) = Some (take i toks))"
    using lex_pieces_cut [OF good cut n'] unfolding len bytes_def toks_def .
  then have "parse (take n bytes) = None"
  proof
    assume "lex (take n bytes) = None"
    then show ?thesis by (simp add: parse_def)
  next
    assume "\<exists>i<17. lex (take n bytes) = Some (take i toks)"
    then obtain i where i: "i < 17" "lex (take n bytes) = Some (take i toks)"
      by blast
    show ?thesis
      unfolding parse_def i(2) toks using run_record_cut [OF i(1), of T A L M]
      by (simp del: run.simps take_Cons_numeral)
  qed
  then show ?thesis unfolding record_pieces bytes_def .
qed

section \<open>Serialized records read back\<close>

lemma ToJson_text:
  "ToJson e = Inr bytes \<Longrightarrow>
   bytes = ''{'' @ jsonKey ''timestamp'' @ ([quote] @ formatRFC3339Nano (Timestamp e) @ [quote]) @
     '','' @ jsonKey ''application'' @ ([quote] @ encodeString (Application e) @ [quote]) @
     '','' @ jsonKey ''level'' @ ([quote] @ encodeString (Level e) @ [quote]) @
     '','' @ jsonKey ''message'' @ ([quote] @ encodeString (Message e) @ [quote]) @ ''}''"
  by (auto simp: ToJson_def Marshal_def Time_MarshalJSON_def appendString_def
      split: sum.splits if_splits)

lemma scanString_timestamp:
  "scanString (formatRFC3339Nano t @ quote # X) = Some (length (formatRFC3339Nano t))"
  by (rule scanString_plain [OF plain_formatRFC3339Nano])

lemma decode_record:
  assumes "parseStrictRFC3339 T = Some t" "unquote A = Some a" "unquote L = Some l"
    "unquote M = Some m"
  shows "decodeMembers [(''timestamp'', JString T), (''application'', JString A),
      (''level'', JString L), (''message'', JString M)] zeroEntry None =
    (\<lparr>Timestamp = t, Application = a, Level = l, Message = m\<rparr>, None)"
proof -
  have keys: "unquote ''timestamp'' = Some ''timestamp''"
    "unquote ''application'' = Some ''application''"
    "unquote ''level'' = Some ''level''" "unquote ''message'' = Some ''message''"
    by (simp_all add: quote_def backslash_def prepend_def)
  have fields: "findField ''timestamp'' = Some FTimestamp"
    "findField ''application'' = Some FApplication"
    "findField ''level'' = Some FLevel" "findField ''message'' = Some FMessage"
    by (simp_all add: findField_def fieldNames_def)
  show ?thesis
    by (simp add: keys fields assms storeMember_def storeString_def saveError_def
        Time_UnmarshalJSON_def zeroEntry_def del: unquote.simps)
qed

text \<open>
  The round trip. The timestamp must be one that \<open>ToJson\<close> can write and that is
  written in full: a year of four digits and a zone offset of whole minutes, less
  than a day; the three strings must be valid UTF-8.
\<close>

lemma FromJson_ToJson:
  assumes wf: "wellformed (Timestamp e)"
    and year: "0 \<le> Year (Timestamp e)" "Year (Timestamp e) \<le> 9999"
    and zone: "ZoneOffset (Timestamp e) mod 60 = 0" "\<bar>ZoneOffset (Timestamp e)\<bar> < 86400"
    and utf8: "ValidString (Application e)" "ValidString (Level e)" "ValidString (Message e)"
  shows "\<exists>bytes. ToJson e = Inr bytes \<and> FromJson bytes = (e, None)"
proof -
  from year zone(2) obtain bytes where bytes: "ToJson e = Inr bytes"
    using ToJson_Inr_iff [of e] by blast
  note shape = ToJson_text [OF bytes]
  have "parse bytes = Some (JObject [(''timestamp'', JString (formatRFC3339Nano (Timestamp e))),
      (''application'', JString (encodeString (Application e))),
      (''level'', JString (encodeString (Level e))),
      (''message'', JString (encodeString (Message e)))])"
    unfolding shape
    by (rule parse_record [OF scanString_timestamp scanString_encodeString
          scanString_encodeString scanString_encodeString])
  moreover have "decodeMembers [(''timestamp'', JString (formatRFC3339Nano (Timestamp e))),
      (''application'', JString (encodeString (Application e))),
      (''level'', JString (encodeString (Level e))),
      (''message'', JString (encodeString (Message e)))] zeroEntry None =
    (\<lparr>Timestamp = Timestamp e, Application = Application e, Level = Level e,
       Message = Message e\<rparr>, None)"
    by (rule decode_record [OF parseStrictRFC3339_formatRFC3339Nano [OF wf year zone]
          unquote_encodeString [OF utf8(1)] unquote_encodeString [OF utf8(2)]
          unquote_encodeString [OF utf8(3)]])
  ultimately have "FromJson bytes = (e, None)"
    by (simp add: FromJson_def Unmarshal_def)
  with bytes show ?thesis by blast
qed

lemma ValidString_ascii:
  "\<forall>c\<in>set s. (of_char c :: nat) < 128 \<Longrightarrow> ValidString s"
  by (induction s) (simp_all add: RuneError_def)

lemma ValidString_level: "validLevel l \<Longrightarrow> ValidString l"
  by (rule ValidString_ascii) (auto simp: validLevel_def levels_def level_defs)

text \<open>Every text that ends before a serialized record does is refused.\<close>

lemma FromJson_truncated:
  assumes bytes: "ToJson e = Inr bytes" and p: "truncation p bytes"
  shows "FromJson p = (zeroEntry, Some SyntaxError)"
proof -
  note shape = ToJson_text [OF bytes]
  from p have n: "length p < length bytes" and take: "p = take (length p) bytes"
    by (simp_all add: truncation_def)
  have "parse (take (length p) bytes) = None"
    using n unfolding shape
    by (rule parse_record_cut [OF scanString_timestamp scanString_encodeString
          scanString_encodeString scanString_encodeString])
  then have "parse p = None" using take by simp
  then show ?thesis by (simp add: FromJson_def Unmarshal_def)
qed

lemma ToJson_exampleEntry: "ToJson exampleEntry = Inr exampleRecord"
  by (simp add: exampleEntry_def exampleRecord_def exampleTime_def level_defs eval_marshal)

lemma ValidString_examples:
  "ValidString ''AuthService''" "ValidString ''Connection Pool almost full''"
  "ValidString ''TRACE''"
  by (rule ValidString_ascii, simp)+

lemmas eval_unquote = getu4_def hexVal_def isSurrogate_def EncodeRune_def RuneError_def
  utf16_DecodeRune_def

section \<open>The round trip\<close>

text \<open>
  C1, as stated, fails. A string of Go is any sequence of bytes, and \<open>ToJson\<close>
  writes a byte that starts no valid UTF-8 encoding as the escape of U+FFFD: a
  message made of the byte \<^verbatim>\<open>0xFF\<close> comes back as the three bytes of U+FFFD.
  And the timestamp is written with its zone offset in hours and minutes only: a
  time in a zone thirty seconds east of UTC comes back with the offset zero. Both
  entries have the level \<open>INFO\<close>.
\<close>

theorem round_trip_counterexample:
  \<open>validLevel INFO \<and>
   ToJson \<lparr>Timestamp = exampleTime, Application = ''AuthService'', Level = INFO,
      Message = [CHR 0xFF]\<rparr> =
     Inr (''{"timestamp":"2024-02-29T13:05:09.12+05:30","application":"AuthService","level":"INFO","message":"'' @
          [backslash] @ ''ufffd"}'') \<and>
   FromJson (''{"timestamp":"2024-02-29T13:05:09.12+05:30","application":"AuthService","level":"INFO","message":"'' @
          [backslash] @ ''ufffd"}'') =
     (\<lparr>Timestamp = exampleTime, Application = ''AuthService'', Level = INFO,
        Message = [CHR 0xEF, CHR 0xBF, CHR 0xBD]\<rparr>, None) \<and>
   ToJson \<lparr>Timestamp = exampleTime\<lparr>ZoneOffset := 30\<rparr>, Application = ''AuthService'',
      Level = INFO, Message = ''Service Started''\<rparr> =
     Inr ''{"timestamp":"2024-02-29T13:05:09.12+00:00","application":"AuthService","level":"INFO","message":"Service Started"}'' \<and>
   FromJson ''{"timestamp":"2024-02-29T13:05:09.12+00:00","application":"AuthService","level":"INFO","message":"Service Started"}'' =
     (\<lparr>Timestamp = exampleTime\<lparr>ZoneOffset := 0\<rparr>, Application = ''AuthService'',
        Level = INFO, Message = ''Service Started''\<rparr>, None)\<close>
proof -
  have a: "validLevel INFO" by (simp add: validLevel_def levels_def)
  have b: \<open>ToJson \<lparr>Timestamp = exampleTime, Application = ''AuthService'', Level = INFO,
      Message = [CHR 0xFF]\<rparr> =
     Inr (''{"timestamp":"2024-02-29T13:05:09.12+05:30","application":"AuthService","level":"INFO","message":"'' @
          [backslash] @ ''ufffd"}'')\<close>
    by (simp add: exampleTime_def level_defs eval_marshal RuneError_def)
  have c: \<open>FromJson (''{"timestamp":"2024-02-29T13:05:09.12+05:30","application":"AuthService","level":"INFO","message":"'' @
          [backslash] @ ''ufffd"}'') =
     (\<lparr>Timestamp = exampleTime, Application = ''AuthService'', Level = INFO,
        Message = [CHR 0xEF, CHR 0xBF, CHR 0xBD]\<rparr>, None)\<close>
    by (simp add: exampleTime_def level_defs eval_unmarshal eval_unquote char_of_eq_iff)
  have d: \<open>ToJson \<lparr>Timestamp = exampleTime\<lparr>ZoneOffset := 30\<rparr>, Application = ''AuthService'',
      Level = INFO, Message = ''Service Started''\<rparr> =
     Inr ''{"timestamp":"2024-02-29T13:05:09.12+00:00","application":"AuthService","level":"INFO","message":"Service Started"}''\<close>
    by (simp add: exampleTime_def level_defs eval_marshal)
  have e: \<open>FromJson ''{"timestamp":"2024-02-29T13:05:09.12+00:00","application":"AuthService","level":"INFO","message":"Service Started"}'' =
     (\<lparr>Timestamp = exampleTime\<lparr>ZoneOffset := 0\<rparr>, Application = ''AuthService'',
        Level = INFO, Message = ''Service Started''\<rparr>, None)\<close>
    by (simp add: exampleTime_def level_defs eval_unmarshal)
  from a b c d e show ?thesis by (intro conjI)
qed

text \<open>
  C1, amended. For every entry whose level is one of the five, whose application
  and message are valid UTF-8, and whose timestamp \<open>ToJson\<close> writes in full (a
  year from 0 to 9999, a zone offset of whole minutes and of less than a day),
  \<open>ToJson\<close> returns bytes, and \<open>FromJson\<close> reads from them an entry equal to the
  first and no error. Two timestamps are equal when they show the same date, the
  same clock reading and the same zone offset.
\<close>

theorem round_trip:
  assumes "validLevel (Level e)"
    and "ValidString (Application e)" "ValidString (Message e)"
    and "wellformed (Timestamp e)"
    and "0 \<le> Year (Timestamp e)" "Year (Timestamp e) \<le> 9999"
    and "ZoneOffset (Timestamp e) mod 60 = 0" "\<bar>ZoneOffset (Timestamp e)\<bar> < 86400"
  shows "\<exists>bytes. ToJson e = Inr bytes \<and> FromJson bytes = (e, None)"
  by (rule FromJson_ToJson [OF assms(4-8) assms(2) ValidString_level [OF assms(1)] assms(3)])

theorem round_trip_witness:
  "validLevel (Level exampleEntry) \<and> ValidString (Application exampleEntry) \<and>
   ValidString (Message exampleEntry) \<and> wellformed (Timestamp exampleEntry) \<and>
   0 \<le> Year (Timestamp exampleEntry) \<and> Year (Timestamp exampleEntry) \<le> 9999 \<and>
   ZoneOffset (Timestamp exampleEntry) mod 60 = 0 \<and>
   \<bar>ZoneOffset (Timestamp exampleEntry)\<bar> < 86400 \<and>
   ToJson exampleEntry = Inr exampleRecord \<and>
   FromJson exampleRecord = (exampleEntry, None)"
proof -
  have lv: "validLevel (Level exampleEntry)"
    by (simp add: exampleEntry_def validLevel_def levels_def)
  have vs: "ValidString (Application exampleEntry)" "ValidString (Message exampleEntry)"
    by (simp_all add: exampleEntry_def ValidString_examples del: ValidString.simps)
  have wf: "wellformed (Timestamp exampleEntry)"
    by (simp add: exampleEntry_def wellformed_exampleTime)
  have tm: "0 \<le> Year (Timestamp exampleEntry)" "Year (Timestamp exampleEntry) \<le> 9999"
    "ZoneOffset (Timestamp exampleEntry) mod 60 = 0"
    "\<bar>ZoneOffset (Timestamp exampleEntry)\<bar> < 86400"
    by (simp_all add: exampleEntry_def exampleTime_def)
  from round_trip [OF lv vs wf tm]
  obtain bytes where "ToJson exampleEntry = Inr bytes" "FromJson bytes = (exampleEntry, None)"
    by blast
  then have "ToJson exampleEntry = Inr exampleRecord"
    "FromJson exampleRecord = (exampleEntry, None)"
    by (simp_all add: ToJson_exampleEntry)
  with lv vs wf tm show ?thesis by (intro conjI)
qed

section \<open>Levels that are not among the five\<close>

text \<open>
  C2, as stated, fails. \<open>LogLevel\<close> is a string type, and \<open>FromJson\<close> stores the
  string of the record without comparing it with the five named values: the record
  below has the level \<^verbatim>\<open>TRACE\<close> and is read with no error.
\<close>

theorem unknown_level_counterexample:
  \<open>\<not> validLevel ''TRACE'' \<and>
   FromJson ''{"timestamp":"2024-02-29T13:05:09.12+05:30","application":"AuthService","level":"TRACE","message":"Connection Pool almost full"}'' =
     (\<lparr>Timestamp = exampleTime, Application = ''AuthService'', Level = ''TRACE'',
        Message = ''Connection Pool almost full''\<rparr>, None)\<close>
proof -
  have a: "\<not> validLevel ''TRACE''"
    by (simp add: validLevel_def levels_def level_defs)
  have b: \<open>FromJson ''{"timestamp":"2024-02-29T13:05:09.12+05:30","application":"AuthService","level":"TRACE","message":"Connection Pool almost full"}'' =
     (\<lparr>Timestamp = exampleTime, Application = ''AuthService'', Level = ''TRACE'',
        Message = ''Connection Pool almost full''\<rparr>, None)\<close>
    by (simp add: exampleTime_def eval_unmarshal)
  from a b show ?thesis by (intro conjI)
qed

text \<open>
  C2, amended. A serialized record whose level is not one of the five is read
  with no error, and the entry that \<open>FromJson\<close> returns has that level: this holds
  for the bytes that \<open>ToJson\<close> writes for every entry with such a level, when the
  level, the application and the message are valid UTF-8 and the timestamp is
  written in full.
\<close>

theorem unknown_level_accepted:
  assumes "\<not> validLevel (Level e)" and "ValidString (Level e)"
    and "ValidString (Application e)" "ValidString (Message e)"
    and "wellformed (Timestamp e)"
    and "0 \<le> Year (Timestamp e)" "Year (Timestamp e) \<le> 9999"
    and "ZoneOffset (Timestamp e) mod 60 = 0" "\<bar>ZoneOffset (Timestamp e)\<bar> < 86400"
  shows "\<exists>bytes. ToJson e = Inr bytes \<and> snd (FromJson bytes) = None \<and>
     Level (fst (FromJson bytes)) = Level e"
proof -
  from FromJson_ToJson [OF assms(5-9) assms(3) assms(2) assms(4)]
  obtain bytes where "ToJson e = Inr bytes" "FromJson bytes = (e, None)"
    by blast
  then show ?thesis by (intro exI [of _ bytes]) simp
qed

theorem unknown_level_accepted_witness:
  \<open>\<not> validLevel (Level (exampleEntry\<lparr>Level := ''TRACE''\<rparr>)) \<and>
   ValidString (Level (exampleEntry\<lparr>Level := ''TRACE''\<rparr>)) \<and>
   ValidString (Application (exampleEntry\<lparr>Level := ''TRACE''\<rparr>)) \<and>
   ValidString (Message (exampleEntry\<lparr>Level := ''TRACE''\<rparr>)) \<and>
   wellformed (Timestamp (exampleEntry\<lparr>Level := ''TRACE''\<rparr>)) \<and>
   0 \<le> Year (Timestamp (exampleEntry\<lparr>Level := ''TRACE''\<rparr>)) \<and>
   Year (Timestamp (exampleEntry\<lparr>Level := ''TRACE''\<rparr>)) \<le> 9999 \<and>
   ZoneOffset (Timestamp (exampleEntry\<lparr>Level := ''TRACE''\<rparr>)) mod 60 = 0 \<and>
   \<bar>ZoneOffset (Timestamp (exampleEntry\<lparr>Level := ''TRACE''\<rparr>))\<bar> < 86400 \<and>
   ToJson (exampleEntry\<lparr>Level := ''TRACE''\<rparr>) =
     Inr ''{"timestamp":"2024-02-29T13:05:09.12+05:30","application":"AuthService","level":"TRACE","message":"Connection Pool almost full"}'' \<and>
   snd (FromJson ''{"timestamp":"2024-02-29T13:05:09.12+05:30","application":"AuthService","level":"TRACE","message":"Connection Pool almost full"}'') = None \<and>
   Level (fst (FromJson ''{"timestamp":"2024-02-29T13:05:09.12+05:30","application":"AuthService","level":"TRACE","message":"Connection Pool almost full"}'')) = ''TRACE''\<close>
proof -
  let ?e = "exampleEntry\<lparr>Level := ''TRACE''\<rparr>"
  have lv: "\<not> validLevel (Level ?e)"
    by (simp add: validLevel_def levels_def level_defs)
  have vs: "ValidString (Level ?e)" "ValidString (Application ?e)" "ValidString (Message ?e)"
    by (simp_all add: exampleEntry_def ValidString_examples del: ValidString.simps)
  have wf: "wellformed (Timestamp ?e)"
    by (simp add: exampleEntry_def wellformed_exampleTime)
  have tm: "0 \<le> Year (Timestamp ?e)" "Year (Timestamp ?e) \<le> 9999"
    "ZoneOffset (Timestamp ?e) mod 60 = 0" "\<bar>ZoneOffset (Timestamp ?e)\<bar> < 86400"
    by (simp_all add: exampleEntry_def exampleTime_def)
  have bytes: \<open>ToJson ?e =
     Inr ''{"timestamp":"2024-02-29T13:05:09.12+05:30","application":"AuthService","level":"TRACE","message":"Connection Pool almost full"}''\<close>
    by (simp add: exampleEntry_def exampleTime_def eval_marshal)
  from unknown_level_accepted [OF lv vs wf tm]
  obtain bs where "ToJson ?e = Inr bs" "snd (FromJson bs) = None"
    "Level (fst (FromJson bs)) = Level ?e"
    by blast
  with bytes have
    \<open>snd (FromJson ''{"timestamp":"2024-02-29T13:05:09.12+05:30","application":"AuthService","level":"TRACE","message":"Connection Pool almost full"}'') = None\<close>
    \<open>Level (fst (FromJson ''{"timestamp":"2024-02-29T13:05:09.12+05:30","application":"AuthService","level":"TRACE","message":"Connection Pool almost full"}'')) = ''TRACE''\<close>
    by simp_all
  with lv vs wf tm bytes show ?thesis by (intro conjI)
qed

section \<open>Truncated records and missing fields\<close>

text \<open>
  C3, as stated, fails for a record with a field missing. The record below has no
  message; \<open>FromJson\<close> returns no error for it, and an entry whose message is empty.
\<close>

theorem missing_field_counterexample:
  \<open>FromJson ''{"timestamp":"2024-02-29T13:05:09.12+05:30","application":"AuthService","level":"WARN"}'' =
     (\<lparr>Timestamp = exampleTime, Application = ''AuthService'', Level = WARN, Message = []\<rparr>,
      None)\<close>
  by (simp add: exampleTime_def level_defs eval_unmarshal)

text \<open>
  C3, amended. Every truncation of the bytes that \<open>ToJson\<close> writes, for whatever
  entry, is refused by \<open>FromJson\<close> with a \<open>SyntaxError\<close> and leaves the entry at its
  zero value; \<open>proccessLogMessage\<close> writes the error line for it and returns.
\<close>

theorem truncated_record_rejected:
  assumes "ToJson e = Inr bytes" and "truncation p bytes"
  shows "FromJson p = (zeroEntry, Some SyntaxError) \<and>
    proccessLogMessage \<lparr>MsgValue = p, Partition = part, Offset = offs\<rparr> =
      ErrorLine ''Error parsing the log message '' SyntaxError"
  using FromJson_truncated [OF assms] by (simp add: proccessLogMessage_def)

theorem truncated_record_rejected_witness:
  \<open>ToJson exampleEntry = Inr exampleRecord \<and>
   truncation ''{"timestamp":"2024-02-29T13:05:09.12+05:30","application":"Auth'' exampleRecord \<and>
   FromJson ''{"timestamp":"2024-02-29T13:05:09.12+05:30","application":"Auth'' =
     (zeroEntry, Some SyntaxError) \<and>
   proccessLogMessage \<lparr>MsgValue = ''{"timestamp":"2024-02-29T13:05:09.12+05:30","application":"Auth'',
      Partition = 0, Offset = 41\<rparr> =
     ErrorLine ''Error parsing the log message '' SyntaxError\<close>
proof -
  have cut: \<open>truncation ''{"timestamp":"2024-02-29T13:05:09.12+05:30","application":"Auth''
      exampleRecord\<close>
    by (simp add: truncation_def exampleRecord_def)
  from truncated_record_rejected [OF ToJson_exampleEntry cut, of 0 41] ToJson_exampleEntry cut
  show ?thesis by (intro conjI) simp_all
qed

end
